theory Spec2Isabelle
  imports
    Main
    "HOL-Library.AList"
    "HOL-Library.Char_ord"
    "HOL-Library.List_Lexorder"
    "HOL-Library.Product_Lexorder"
begin

section \<open>Python values and dictionaries\<close>

text \<open>
  The storage layer of the collaboration server (\<^verbatim>\<open>idarling/shared/storage.py\<close>) passes
  Python values to SQLite as statement parameters and reads them back from rows. The values
  that reach it are \<^verbatim>\<open>None\<close>, integers and strings; floating point numbers and byte
  strings are outside the model, and integers are taken within the range of an SQLite
  integer.
\<close>

datatype pyval = PNone | PInt int | PStr string

text \<open>Python's truth value of an object, as tested by \<^verbatim>\<open>if val\<close>.\<close>

fun truthy :: "pyval \<Rightarrow> bool" where
  "truthy PNone = False"
| "truthy (PInt i) = (i \<noteq> 0)"
| "truthy (PStr s) = (s \<noteq> [])"

text \<open>
  A Python \<^verbatim>\<open>dict\<close> with string keys, in insertion order. The keys of a dictionary are
  distinct; \<open>map_of\<close> reads a key, \<open>AList.delete\<close> removes it.
\<close>

type_synonym pydict = "(string \<times> pyval) list"

definition keys :: "pydict \<Rightarrow> string list" where
  "keys d = map fst d"

definition vals :: "pydict \<Rightarrow> pyval list" where
  "vals d = map snd d"

text \<open>The optional \<^verbatim>\<open>limit\<close> argument: \<^verbatim>\<open>None\<close> or an integer; \<^verbatim>\<open>if limit\<close> tests it.\<close>

fun truthy_limit :: "int option \<Rightarrow> bool" where
  "truthy_limit None = False"
| "truthy_limit (Some n) = (n \<noteq> 0)"

datatype constraint = NotNull | Unique

datatype error =
    OperationalError
  | IntegrityError constraint
  | KeyError
  | TypeError

section \<open>The SQLite engine\<close>

text \<open>
  The engine is the collaborator behind \<^verbatim>\<open>cursor.execute\<close>. A statement is kept as its
  syntax tree together with the parameters bound to its \<^verbatim>\<open>?\<close> placeholders, in the shape
  the storage layer builds them. A table has its columns with their type affinity (every
  column of the schema is declared \<^verbatim>\<open>not null\<close>), its primary key and its rows in
  insertion order. Foreign keys are declared by the schema but not enforced by the engine,
  so they are not part of a table.
\<close>

datatype affinity = TEXT | INTEGER

record table =
  columns :: "(string \<times> affinity) list"
  primary_key :: "string list"
  rows :: "pydict list"

type_synonym db = "string \<rightharpoonup> table"

datatype cmp = Eq | Gt

datatype direction = Asc | Desc

datatype stmt =
    CreateTable string "(string \<times> affinity) list" "string list"
  | Insert string pydict
  | Select "string list option" string "(string \<times> cmp \<times> pyval) list"
      "(string \<times> direction) option" "int option"
  | Update string string pyval "(string \<times> cmp \<times> pyval) list" "int option"

subsection \<open>Type affinity\<close>

fun str_nat :: "nat \<Rightarrow> string" where
  "str_nat n =
     (if n < 10 then [char_of (48 + n)]
      else str_nat (n div 10) @ [char_of (48 + n mod 10)])"

declare str_nat.simps [simp del]

definition str_int :: "int \<Rightarrow> string" where
  "str_int i = (if i < 0 then CHR ''-'' # str_nat (nat (- i)) else str_nat (nat i))"

definition is_digit :: "char \<Rightarrow> bool" where
  "is_digit c = (48 \<le> (of_char c :: nat) \<and> (of_char c :: nat) \<le> 57)"

definition nat_of_digits :: "string \<Rightarrow> nat" where
  "nat_of_digits s = foldl (\<lambda>n c. 10 * n + ((of_char c :: nat) - 48)) 0 s"

text \<open>
  A text that is an integer literal: an optional sign and at least one decimal digit.
  (SQLite also converts texts with surrounding blanks and real literals; those are outside
  the model.)
\<close>

fun int_of_text :: "string \<Rightarrow> int option" where
  "int_of_text [] = None"
| "int_of_text (c # cs) =
     (if c = CHR ''-'' \<and> cs \<noteq> [] \<and> list_all is_digit cs then Some (- int (nat_of_digits cs))
      else if c = CHR ''+'' \<and> cs \<noteq> [] \<and> list_all is_digit cs then Some (int (nat_of_digits cs))
      else if list_all is_digit (c # cs) then Some (int (nat_of_digits (c # cs)))
      else None)"

text \<open>
  The value a column of the given affinity holds for, or compares against, a bound
  parameter: a text column turns an integer into its decimal text, an integer column turns
  a text that is an integer literal into that integer.
\<close>

fun coerce :: "affinity \<Rightarrow> pyval \<Rightarrow> pyval" where
  "coerce TEXT (PInt i) = PStr (str_int i)"
| "coerce INTEGER (PStr s) = (case int_of_text s of Some i \<Rightarrow> PInt i | None \<Rightarrow> PStr s)"
| "coerce a v = v"

subsection \<open>Comparison and ordering\<close>

text \<open>
  SQLite orders \<^verbatim>\<open>NULL\<close> before every integer and every integer before every text;
  texts compare byte by byte. The key below maps a value into that order.
\<close>

fun sql_key :: "pyval \<Rightarrow> nat \<times> int \<times> string" where
  "sql_key PNone = (0, 0, [])"
| "sql_key (PInt i) = (1, i, [])"
| "sql_key (PStr s) = (2, 0, s)"

text \<open>A comparison with \<^verbatim>\<open>NULL\<close> is never true.\<close>

fun sql_test :: "cmp \<Rightarrow> pyval \<Rightarrow> pyval \<Rightarrow> bool" where
  "sql_test c PNone p = False"
| "sql_test c v PNone = False"
| "sql_test Eq v p = (v = p)"
| "sql_test Gt v p = (sql_key p < sql_key v)"

definition cell :: "pydict \<Rightarrow> string \<Rightarrow> pyval" where
  "cell r c = (case map_of r c of Some v \<Rightarrow> v | None \<Rightarrow> PNone)"

definition holds :: "(string \<times> affinity) list \<Rightarrow> pydict \<Rightarrow> string \<times> cmp \<times> pyval \<Rightarrow> bool" where
  "holds cols r cond =
     (case cond of (c, op, p) \<Rightarrow>
        (case map_of cols c of
           None \<Rightarrow> False
         | Some a \<Rightarrow> sql_test op (cell r c) (coerce a p)))"

definition matches :: "(string \<times> affinity) list \<Rightarrow> (string \<times> cmp \<times> pyval) list \<Rightarrow> pydict \<Rightarrow> bool" where
  "matches cols conds r = list_all (holds cols r) conds"

definition known :: "(string \<times> affinity) list \<Rightarrow> string list \<Rightarrow> bool" where
  "known cols cs = list_all (\<lambda>c. c \<in> set (map fst cols)) cs"

subsection \<open>Queries\<close>

fun ordered :: "(string \<times> direction) option \<Rightarrow> pydict list \<Rightarrow> pydict list" where
  "ordered None rs = rs"
| "ordered (Some (c, Asc)) rs = sort_key (\<lambda>r. sql_key (cell r c)) rs"
| "ordered (Some (c, Desc)) rs = rev (sort_key (\<lambda>r. sql_key (cell r c)) rs)"

text \<open>A negative \<^verbatim>\<open>limit\<close> is no limit.\<close>

fun limited :: "int option \<Rightarrow> 'a list \<Rightarrow> 'a list" where
  "limited None rs = rs"
| "limited (Some n) rs = (if n < 0 then rs else take (nat n) rs)"

fun projected :: "string list option \<Rightarrow> pydict \<Rightarrow> pydict" where
  "projected None r = r"
| "projected (Some cs) r = map (\<lambda>c. (c, cell r c)) cs"

definition run_select ::
  "table \<Rightarrow> string list option \<Rightarrow> (string \<times> cmp \<times> pyval) list \<Rightarrow>
   (string \<times> direction) option \<Rightarrow> int option \<Rightarrow> error + pydict list" where
  "run_select t proj conds ord lim =
     (if known (columns t)
           (map fst conds @ (case ord of None \<Rightarrow> [] | Some (c, d) \<Rightarrow> [c])
              @ (case proj of None \<Rightarrow> [] | Some cs \<Rightarrow> cs))
      then Inr (map (projected proj)
                 (limited lim (ordered ord (filter (matches (columns t) conds) (rows t)))))
      else Inl OperationalError)"

subsection \<open>Insertion\<close>

definition key_of :: "table \<Rightarrow> pydict \<Rightarrow> pyval list" where
  "key_of t r = map (cell r) (primary_key t)"

definition new_row :: "table \<Rightarrow> pydict \<Rightarrow> pydict" where
  "new_row t flds = map (\<lambda>(c, a). (c, coerce a (cell flds c))) (columns t)"

definition run_insert :: "table \<Rightarrow> pydict \<Rightarrow> error + table" where
  "run_insert t flds =
     (if flds = [] \<or> \<not> known (columns t) (keys flds) then Inl OperationalError
      else let r = new_row t flds in
        if PNone \<in> set (vals r) then Inl (IntegrityError NotNull)
        else if key_of t r \<in> set (map (key_of t) (rows t)) then Inl (IntegrityError Unique)
        else Inr (t\<lparr>rows := rows t @ [r]\<rparr>))"

subsection \<open>Update\<close>

text \<open>
  The rows an update touches are the matching rows, the first \<open>n\<close> of them under
  \<^verbatim>\<open>limit n\<close>. The statement is applied as a whole or not at all: when a new row would
  hold \<^verbatim>\<open>NULL\<close> or repeat a primary key, the table is left as it was.
\<close>

fun assign :: "string \<Rightarrow> pyval \<Rightarrow> pydict \<Rightarrow> pydict" where
  "assign c v r = map (\<lambda>(k, w). if k = c then (k, v) else (k, w)) r"

fun touch :: "nat option \<Rightarrow> (pydict \<Rightarrow> bool) \<Rightarrow> (pydict \<Rightarrow> pydict) \<Rightarrow> pydict list \<Rightarrow> pydict list" where
  "touch n P f [] = []"
| "touch None P f (r # rs) = (if P r then f r else r) # touch None P f rs"
| "touch (Some 0) P f (r # rs) = r # rs"
| "touch (Some (Suc n)) P f (r # rs) =
     (if P r then f r # touch (Some n) P f rs else r # touch (Some (Suc n)) P f rs)"

fun bound :: "int option \<Rightarrow> nat option" where
  "bound None = None"
| "bound (Some n) = (if n < 0 then None else Some (nat n))"

definition run_update ::
  "table \<Rightarrow> string \<Rightarrow> pyval \<Rightarrow> (string \<times> cmp \<times> pyval) list \<Rightarrow> int option \<Rightarrow> error + table" where
  "run_update t c v conds lim =
     (case map_of (columns t) c of
        None \<Rightarrow> Inl OperationalError
      | Some a \<Rightarrow>
          if \<not> known (columns t) (map fst conds) then Inl OperationalError
          else let rs = touch (bound lim) (matches (columns t) conds) (assign c (coerce a v)) (rows t) in
            if rs = rows t then Inr t
            else if coerce a v = PNone then Inl (IntegrityError NotNull)
            else if \<not> distinct (map (key_of t) rs) then Inl (IntegrityError Unique)
            else Inr (t\<lparr>rows := rs\<rparr>))"

subsection \<open>Executing a statement\<close>

text \<open>
  \<^verbatim>\<open>cursor.execute\<close> followed by \<^verbatim>\<open>cursor.fetchall\<close>: the rows fetched, or the
  exception raised, and the database afterwards. The connection commits every statement
  on its own; a statement that raises leaves the database as it was.
\<close>

fun execute :: "db \<Rightarrow> stmt \<Rightarrow> (error + pydict list) \<times> db" where
  "execute s (CreateTable name cols pk) =
     (case s name of
        Some t \<Rightarrow> (Inr [], s)
      | None \<Rightarrow> (Inr [], s(name \<mapsto> \<lparr>columns = cols, primary_key = pk, rows = []\<rparr>)))"
| "execute s (Insert name flds) =
     (case s name of
        None \<Rightarrow> (Inl OperationalError, s)
      | Some t \<Rightarrow>
          (case run_insert t flds of
             Inl e \<Rightarrow> (Inl e, s)
           | Inr t' \<Rightarrow> (Inr [], s(name \<mapsto> t'))))"
| "execute s (Select proj name conds ord lim) =
     (case s name of
        None \<Rightarrow> (Inl OperationalError, s)
      | Some t \<Rightarrow>
          (case run_select t proj conds ord lim of
             Inl e \<Rightarrow> (Inl e, s)
           | Inr rs \<Rightarrow> (Inr rs, s)))"
| "execute s (Update name c v conds lim) =
     (case s name of
        None \<Rightarrow> (Inl OperationalError, s)
      | Some t \<Rightarrow>
          (case run_update t c v conds lim of
             Inl e \<Rightarrow> (Inl e, s)
           | Inr t' \<Rightarrow> (Inr [], s(name \<mapsto> t'))))"


section \<open>The storage layer\<close>

text \<open>
  The methods of \<^verbatim>\<open>Storage\<close>. The connection is the database \<open>s\<close>, passed in and
  returned. A method that only reads returns its result or the exception raised; a
  method that writes returns that together with the database afterwards.
\<close>

subsection \<open>The generic statements\<close>

text \<open>\<^verbatim>\<open>_create\<close>: \<^verbatim>\<open>create table if not exists\<close>.\<close>

definition storage_create ::
  "db \<Rightarrow> string \<Rightarrow> (string \<times> affinity) list \<Rightarrow> string list \<Rightarrow> (error + pydict list) \<times> db" where
  "storage_create s tbl cols pk = execute s (CreateTable tbl cols pk)"

text \<open>
  \<^verbatim>\<open>_select\<close>: the statement and its parameters are built from the entries of
  \<^verbatim>\<open>fields\<close> whose value is true; a \<^verbatim>\<open>limit\<close> clause is added when \<^verbatim>\<open>limit\<close> is true.
\<close>

definition select_sql :: "string \<Rightarrow> pydict \<Rightarrow> int option \<Rightarrow> stmt" where
  "select_sql tbl flds limit =
     (let flds = filter (\<lambda>(key, val). truthy val) flds
      in Select None tbl (map (\<lambda>(col, val). (col, Eq, val)) flds) None
           (if truthy_limit limit then limit else None))"

definition storage_select ::
  "db \<Rightarrow> string \<Rightarrow> pydict \<Rightarrow> int option \<Rightarrow> (error + pydict list) \<times> db" where
  "storage_select s tbl flds limit = execute s (select_sql tbl flds limit)"

text \<open>\<^verbatim>\<open>_update\<close>: the same, for \<^verbatim>\<open>update ... set field = ?\<close>.\<close>

definition update_sql :: "string \<Rightarrow> string \<Rightarrow> pyval \<Rightarrow> pydict \<Rightarrow> int option \<Rightarrow> stmt" where
  "update_sql tbl field new_value search_fields limit =
     (let search_fields = filter (\<lambda>(key, val). truthy val) search_fields
      in Update tbl field new_value (map (\<lambda>(col, val). (col, Eq, val)) search_fields)
           (if truthy_limit limit then limit else None))"

definition storage_update ::
  "db \<Rightarrow> string \<Rightarrow> string \<Rightarrow> pyval \<Rightarrow> pydict \<Rightarrow> int option \<Rightarrow> (error + pydict list) \<times> db" where
  "storage_update s tbl field new_value search_fields limit =
     execute s (update_sql tbl field new_value search_fields limit)"

text \<open>\<^verbatim>\<open>_insert\<close>: one row, with the keys of \<^verbatim>\<open>fields\<close> as columns.\<close>

definition storage_insert :: "db \<Rightarrow> string \<Rightarrow> pydict \<Rightarrow> (error + pydict list) \<times> db" where
  "storage_insert s tbl flds = execute s (Insert tbl flds)"

subsection \<open>The schema\<close>

definition groups_columns :: "(string \<times> affinity) list" where
  "groups_columns = [(''name'', TEXT), (''date'', TEXT)]"

definition projects_columns :: "(string \<times> affinity) list" where
  "projects_columns =
     [(''group_name'', TEXT), (''name'', TEXT), (''hash'', TEXT), (''file'', TEXT),
      (''type'', TEXT), (''date'', TEXT)]"

definition databases_columns :: "(string \<times> affinity) list" where
  "databases_columns =
     [(''group_name'', TEXT), (''project'', TEXT), (''name'', TEXT), (''date'', TEXT)]"

definition events_columns :: "(string \<times> affinity) list" where
  "events_columns =
     [(''group_name'', TEXT), (''project'', TEXT), (''database'', TEXT), (''tick'', INTEGER),
      (''dict'', TEXT)]"

definition groups_key :: "string list" where
  "groups_key = [''name'']"

definition projects_key :: "string list" where
  "projects_key = [''group_name'', ''name'']"

definition databases_key :: "string list" where
  "databases_key = [''group_name'', ''project'', ''name'']"

definition events_key :: "string list" where
  "events_key = [''group_name'', ''project'', ''database'', ''tick'']"

definition initialize :: "db \<Rightarrow> db" where
  "initialize s =
     (let s = snd (storage_create s ''groups'' groups_columns groups_key);
          s = snd (storage_create s ''projects'' projects_columns projects_key);
          s = snd (storage_create s ''databases'' databases_columns databases_key)
      in snd (storage_create s ''events'' events_columns events_key))"

subsection \<open>Objects of the model layer\<close>

text \<open>
  An object is held as its attribute dictionary \<^verbatim>\<open>obj.__dict__\<close>.

  Modelled from the spec: \<^verbatim>\<open>Default.attrs\<close> of \<^verbatim>\<open>packets.py\<close>, which is not among the
  sources. It maps an object's own fields, minus any field holding a false or default
  value, to a column mapping.
\<close>

definition Default_attrs :: "pydict \<Rightarrow> pydict" where
  "Default_attrs dct = filter (\<lambda>(key, val). truthy val) dct"

text \<open>
  Modelled from the spec: the classes \<^verbatim>\<open>Group\<close>, \<^verbatim>\<open>Project\<close> and \<^verbatim>\<open>Database\<close> of
  \<^verbatim>\<open>models.py\<close>, which is not among the sources. By the data model a group has a name and
  a date, a project a group name, a name, a hash, a file, a type and a date, and a database
  a group name, a project, a name and a date, besides the tick it may carry. A call
  \<^verbatim>\<open>Group(**row)\<close> builds the object from the columns of a row and raises \<^verbatim>\<open>TypeError\<close>
  when a keyword is missing or unexpected.
\<close>

definition construct :: "string list \<Rightarrow> string list \<Rightarrow> pydict \<Rightarrow> error + pydict" where
  "construct required optional kw =
     (if set required \<subseteq> set (keys kw) \<and> set (keys kw) \<subseteq> set (required @ optional)
      then Inr kw else Inl TypeError)"

definition Group :: "pydict \<Rightarrow> error + pydict" where
  "Group = construct [''name'', ''date''] []"

definition Project :: "pydict \<Rightarrow> error + pydict" where
  "Project =
     construct [''group_name'', ''name'', ''hash'', ''file'', ''type'', ''date''] []"

definition Database :: "pydict \<Rightarrow> error + pydict" where
  "Database = construct [''group_name'', ''project'', ''name'', ''date''] [''tick'']"

text \<open>A list comprehension over the rows: the first exception raised ends it.\<close>

fun build_all :: "('a \<Rightarrow> error + 'b) \<Rightarrow> 'a list \<Rightarrow> error + 'b list" where
  "build_all f [] = Inr []"
| "build_all f (x # xs) =
     (case f x of
        Inl e \<Rightarrow> Inl e
      | Inr y \<Rightarrow> (case build_all f xs of Inl e \<Rightarrow> Inl e | Inr ys \<Rightarrow> Inr (y # ys)))"

text \<open>\<^verbatim>\<open>objects[0] if objects else None\<close>\<close>

fun first_or_none :: "error + 'a list \<Rightarrow> error + 'a option" where
  "first_or_none (Inl e) = Inl e"
| "first_or_none (Inr []) = Inr None"
| "first_or_none (Inr (obj # objects)) = Inr (Some obj)"

text \<open>A method that returns nothing: only the exception, if any, is kept.\<close>

fun returns_none :: "(error + 'a) \<times> db \<Rightarrow> (error + unit) \<times> db" where
  "returns_none (Inl e, s) = (Inl e, s)"
| "returns_none (Inr x, s) = (Inr (), s)"

subsection \<open>Groups\<close>


definition select_groups :: "db \<Rightarrow> pyval \<Rightarrow> int option \<Rightarrow> error + pydict list" where
  "select_groups s name limit =
     (case fst (storage_select s ''groups'' [(''name'', name)] limit) of
        Inl e \<Rightarrow> Inl e
      | Inr results \<Rightarrow> build_all Group results)"

definition select_group :: "db \<Rightarrow> pyval \<Rightarrow> error + pydict option" where
  "select_group s name = first_or_none (select_groups s name (Some 1))"

subsection \<open>Projects\<close>


definition select_projects :: "db \<Rightarrow> pyval \<Rightarrow> pyval \<Rightarrow> int option \<Rightarrow> error + pydict list" where
  "select_projects s grp name limit =
     (case fst (storage_select s ''projects'' [(''group_name'', grp), (''name'', name)] limit) of
        Inl e \<Rightarrow> Inl e
      | Inr results \<Rightarrow> build_all Project results)"

text \<open>
  \<^verbatim>\<open>select_project(name)\<close> calls \<^verbatim>\<open>self.select_projects(name, 1)\<close>: the positional
  arguments land on \<^verbatim>\<open>group\<close> and \<^verbatim>\<open>name\<close>, and \<^verbatim>\<open>limit\<close> keeps its default.
\<close>

definition select_project :: "db \<Rightarrow> pyval \<Rightarrow> error + pydict option" where
  "select_project s name = first_or_none (select_projects s name (PInt 1) None)"

definition update_project_name ::
  "db \<Rightarrow> pyval \<Rightarrow> pyval \<Rightarrow> pyval \<Rightarrow> int option \<Rightarrow> (error + unit) \<times> db" where
  "update_project_name s grp old_name new_name limit =
     returns_none (storage_update s ''projects'' ''name'' new_name
       [(''group_name'', grp), (''name'', old_name)] limit)"

definition update_database_project ::
  "db \<Rightarrow> pyval \<Rightarrow> pyval \<Rightarrow> pyval \<Rightarrow> int option \<Rightarrow> (error + unit) \<times> db" where
  "update_database_project s grp old_name new_name limit =
     returns_none (storage_update s ''databases'' ''project'' new_name
       [(''group_name'', grp), (''project'', old_name)] limit)"

definition update_events_project ::
  "db \<Rightarrow> pyval \<Rightarrow> pyval \<Rightarrow> pyval \<Rightarrow> int option \<Rightarrow> (error + unit) \<times> db" where
  "update_events_project s grp old_name new_name limit =
     returns_none (storage_update s ''events'' ''project'' new_name
       [(''group_name'', grp), (''project'', old_name)] limit)"

subsection \<open>Databases\<close>

text \<open>\<^verbatim>\<open>attrs.pop("tick")\<close> has no default: it raises \<^verbatim>\<open>KeyError\<close> when the key is absent.\<close>

definition insert_database :: "db \<Rightarrow> pydict \<Rightarrow> (error + unit) \<times> db" where
  "insert_database s database =
     (let attrs = Default_attrs database
      in case map_of attrs ''tick'' of
           None \<Rightarrow> (Inl KeyError, s)
         | Some v \<Rightarrow> returns_none (storage_insert s ''databases'' (AList.delete ''tick'' attrs)))"

definition select_databases ::
  "db \<Rightarrow> pyval \<Rightarrow> pyval \<Rightarrow> pyval \<Rightarrow> int option \<Rightarrow> error + pydict list" where
  "select_databases s grp project name limit =
     (case fst (storage_select s ''databases''
                  [(''group_name'', grp), (''project'', project), (''name'', name)] limit) of
        Inl e \<Rightarrow> Inl e
      | Inr results \<Rightarrow> build_all Database results)"

definition select_database :: "db \<Rightarrow> pyval \<Rightarrow> pyval \<Rightarrow> pyval \<Rightarrow> error + pydict option" where
  "select_database s grp project name =
     first_or_none (select_databases s grp project name (Some 1))"

subsection \<open>Events\<close>

text \<open>
  The client context supplies the scope of an event. An event is held as its tick and the
  JSON text of its other attributes, \<^verbatim>\<open>json.dumps(DefaultEvent.attrs(event.__dict__))\<close>:
  \<^verbatim>\<open>json.loads\<close> is taken to invert \<^verbatim>\<open>json.dumps\<close>, and the event that
  \<^verbatim>\<open>DefaultEvent.new\<close> builds from the decoded attributes and the tick is held the same
  way. \<^verbatim>\<open>json.loads\<close> raises \<^verbatim>\<open>TypeError\<close> on a value that is not a text.
\<close>

record client =
  client_group :: pyval
  client_project :: pyval
  client_database :: pyval

record event =
  event_tick :: pyval
  event_dict :: string

definition insert_event :: "db \<Rightarrow> client \<Rightarrow> event \<Rightarrow> (error + unit) \<times> db" where
  "insert_event s cl ev =
     returns_none (storage_insert s ''events''
       [(''group_name'', client_group cl),
        (''project'', client_project cl),
        (''database'', client_database cl),
        (''tick'', event_tick ev),
        (''dict'', PStr (event_dict ev))])"

definition load_event :: "pydict \<Rightarrow> error + event" where
  "load_event result =
     (case cell result ''dict'' of
        PStr dct \<Rightarrow> Inr \<lparr>event_tick = cell result ''tick'', event_dict = dct\<rparr>
      | _ \<Rightarrow> Inl TypeError)"

definition select_events :: "db \<Rightarrow> pyval \<Rightarrow> pyval \<Rightarrow> pyval \<Rightarrow> pyval \<Rightarrow> error + event list" where
  "select_events s grp project database since =
     (case fst (execute s
                  (Select None ''events''
                     [(''group_name'', Eq, grp), (''project'', Eq, project),
                      (''database'', Eq, database), (''tick'', Gt, since)]
                     (Some (''tick'', Asc)) None)) of
        Inl e \<Rightarrow> Inl e
      | Inr results \<Rightarrow> build_all load_event results)"

text \<open>\<^verbatim>\<open>fetchone\<close> gives the first row of the result, or \<^verbatim>\<open>None\<close>.\<close>

definition last_tick :: "db \<Rightarrow> pyval \<Rightarrow> pyval \<Rightarrow> pyval \<Rightarrow> error + pyval" where
  "last_tick s grp project database =
     (case fst (execute s
                  (Select (Some [''tick'']) ''events''
                     [(''group_name'', Eq, grp), (''project'', Eq, project),
                      (''database'', Eq, database)]
                     (Some (''tick'', Desc)) (Some 1))) of
        Inl e \<Rightarrow> Inl e
      | Inr [] \<Rightarrow> Inr (PInt 0)
      | Inr (result # _) \<Rightarrow> Inr (cell result ''tick''))"


section \<open>Well-formed databases\<close>

text \<open>
  What the engine maintains for a database created by \<open>initialize\<close> and written through
  the storage layer with texts for names and integers for ticks: the four tables have
  their schema, every row gives each column a value of the column's storage class, and no
  two rows of a table share a primary key.
\<close>

fun fits :: "affinity \<Rightarrow> pyval \<Rightarrow> bool" where
  "fits TEXT (PStr x) = True"
| "fits INTEGER (PInt i) = True"
| "fits a v = False"

definition row_ok :: "(string \<times> affinity) list \<Rightarrow> pydict \<Rightarrow> bool" where
  "row_ok cols r = (keys r = map fst cols \<and> list_all (\<lambda>(c, a). fits a (cell r c)) cols)"

definition table_ok :: "(string \<times> affinity) list \<Rightarrow> string list \<Rightarrow> table \<Rightarrow> bool" where
  "table_ok cols pk t =
     (columns t = cols \<and> primary_key t = pk \<and> list_all (row_ok cols) (rows t)
      \<and> distinct (map (key_of t) (rows t)))"

definition has_table :: "db \<Rightarrow> string \<Rightarrow> (string \<times> affinity) list \<Rightarrow> string list \<Rightarrow> bool" where
  "has_table s tbl cols pk = (case s tbl of None \<Rightarrow> False | Some t \<Rightarrow> table_ok cols pk t)"

definition wf_db :: "db \<Rightarrow> bool" where
  "wf_db s =
     (has_table s ''groups'' groups_columns groups_key
      \<and> has_table s ''projects'' projects_columns projects_key
      \<and> has_table s ''databases'' databases_columns databases_key
      \<and> has_table s ''events'' events_columns events_key)"

text \<open>The rows of a table, none when the table does not exist.\<close>

definition rows_of :: "db \<Rightarrow> string \<Rightarrow> pydict list" where
  "rows_of s tbl = (case s tbl of None \<Rightarrow> [] | Some t \<Rightarrow> rows t)"

text \<open>The events stored for a scope, in the order of their insertion, and their ticks.\<close>

definition in_scope :: "string \<Rightarrow> string \<Rightarrow> string \<Rightarrow> pydict \<Rightarrow> bool" where
  "in_scope g p d r =
     (cell r ''group_name'' = PStr g \<and> cell r ''project'' = PStr p \<and> cell r ''database'' = PStr d)"

definition text_of :: "pyval \<Rightarrow> string" where
  "text_of v = (case v of PStr x \<Rightarrow> x | _ \<Rightarrow> [])"

definition row_event :: "pydict \<Rightarrow> event" where
  "row_event r = \<lparr>event_tick = cell r ''tick'', event_dict = text_of (cell r ''dict'')\<rparr>"

definition stored_events :: "db \<Rightarrow> string \<Rightarrow> string \<Rightarrow> string \<Rightarrow> event list" where
  "stored_events s g p d = map row_event (filter (in_scope g p d) (rows_of s ''events''))"

definition int_of :: "pyval \<Rightarrow> int" where
  "int_of v = (case v of PInt i \<Rightarrow> i | _ \<Rightarrow> 0)"

definition tick_of :: "event \<Rightarrow> int" where
  "tick_of ev = int_of (event_tick ev)"



section \<open>Example databases\<close>

text \<open>
  A database with one group, one project, one database and three events, inserted with
  the ticks 3, 1 and 5 in that order.
\<close>

definition demo_db :: db where
  "demo_db = Map.empty
     (''groups'' \<mapsto> \<lparr>columns = groups_columns, primary_key = groups_key,
        rows = [[(''name'', PStr ''g''), (''date'', PStr ''2019'')]]\<rparr>,
      ''projects'' \<mapsto> \<lparr>columns = projects_columns, primary_key = projects_key,
        rows = [[(''group_name'', PStr ''g''), (''name'', PStr ''p1''), (''hash'', PStr ''h''),
                 (''file'', PStr ''f''), (''type'', PStr ''t''), (''date'', PStr ''2019'')]]\<rparr>,
      ''databases'' \<mapsto> \<lparr>columns = databases_columns, primary_key = databases_key,
        rows = [[(''group_name'', PStr ''g''), (''project'', PStr ''p1''), (''name'', PStr ''d1''),
                 (''date'', PStr ''2019'')]]\<rparr>,
      ''events'' \<mapsto> \<lparr>columns = events_columns, primary_key = events_key,
        rows = [[(''group_name'', PStr ''g''), (''project'', PStr ''p1''), (''database'', PStr ''d1''),
                 (''tick'', PInt 3), (''dict'', PStr ''a'')],
                [(''group_name'', PStr ''g''), (''project'', PStr ''p1''), (''database'', PStr ''d1''),
                 (''tick'', PInt 1), (''dict'', PStr ''b'')],
                [(''group_name'', PStr ''g''), (''project'', PStr ''p1''), (''database'', PStr ''d1''),
                 (''tick'', PInt 5), (''dict'', PStr ''c'')]]\<rparr>)"

section \<open>Rows as the storage layer writes them\<close>

text \<open>The row of the events table for an event of a scope, and a table with one more row.\<close>

definition event_row :: "string \<Rightarrow> string \<Rightarrow> string \<Rightarrow> int \<Rightarrow> string \<Rightarrow> pydict" where
  "event_row g p d k j =
     [(''group_name'', PStr g), (''project'', PStr p), (''database'', PStr d),
      (''tick'', PInt k), (''dict'', PStr j)]"

definition add_row :: "db \<Rightarrow> string \<Rightarrow> pydict \<Rightarrow> db" where
  "add_row s tbl r = (case s tbl of None \<Rightarrow> s | Some t \<Rightarrow> s(tbl \<mapsto> t\<lparr>rows := rows t @ [r]\<rparr>))"

definition scope :: "string \<Rightarrow> string \<Rightarrow> string \<Rightarrow> client" where
  "scope g p d = \<lparr>client_group = PStr g, client_project = PStr p, client_database = PStr d\<rparr>"

definition new_event :: "int \<Rightarrow> string \<Rightarrow> event" where
  "new_event k j = \<lparr>event_tick = PInt k, event_dict = j\<rparr>"

section \<open>Renaming a project\<close>

text \<open>
  The rows of a table that belong to a group and hold a given text in a column, and a row
  after the rename of that text.
\<close>

definition rows_where :: "db \<Rightarrow> string \<Rightarrow> string \<Rightarrow> string \<Rightarrow> string \<Rightarrow> pydict list" where
  "rows_where s tbl g c v =
     filter (\<lambda>r. cell r ''group_name'' = PStr g \<and> cell r c = PStr v) (rows_of s tbl)"

definition rename_row :: "string \<Rightarrow> string \<Rightarrow> string \<Rightarrow> string \<Rightarrow> pydict \<Rightarrow> pydict" where
  "rename_row c g old new r =
     (if cell r ''group_name'' = PStr g \<and> cell r c = PStr old then assign c (PStr new) r else r)"

text \<open>
  Three more example databases: as \<open>demo_db\<close> with two events whose ticks are 0 and 1,
  as \<open>demo_db\<close> with two events whose ticks are 2 and 1, and as \<open>demo_db\<close> with a
  project \<^verbatim>\<open>p2\<close> in the group already.
\<close>

definition tick0_db :: db where
  "tick0_db = demo_db
     (''events'' \<mapsto> \<lparr>columns = events_columns, primary_key = events_key,
        rows = [[(''group_name'', PStr ''g''), (''project'', PStr ''p1''), (''database'', PStr ''d1''),
                 (''tick'', PInt 0), (''dict'', PStr ''a'')],
                [(''group_name'', PStr ''g''), (''project'', PStr ''p1''), (''database'', PStr ''d1''),
                 (''tick'', PInt 1), (''dict'', PStr ''b'')]]\<rparr>)"

definition pair_db :: db where
  "pair_db = demo_db
     (''events'' \<mapsto> \<lparr>columns = events_columns, primary_key = events_key,
        rows = [[(''group_name'', PStr ''g''), (''project'', PStr ''p1''), (''database'', PStr ''d1''),
                 (''tick'', PInt 2), (''dict'', PStr ''a'')],
                [(''group_name'', PStr ''g''), (''project'', PStr ''p1''), (''database'', PStr ''d1''),
                 (''tick'', PInt 1), (''dict'', PStr ''b'')]]\<rparr>)"

definition taken_db :: db where
  "taken_db = demo_db
     (''projects'' \<mapsto> \<lparr>columns = projects_columns, primary_key = projects_key,
        rows = [[(''group_name'', PStr ''g''), (''name'', PStr ''p1''), (''hash'', PStr ''h''),
                 (''file'', PStr ''f''), (''type'', PStr ''t''), (''date'', PStr ''2019'')],
                [(''group_name'', PStr ''g''), (''name'', PStr ''p2''), (''hash'', PStr ''h2''),
                 (''file'', PStr ''f2''), (''type'', PStr ''t''), (''date'', PStr ''2020'')]]\<rparr>)"

text \<open>The database after the rows of one table have been renamed.\<close>

definition rename_in :: "db \<Rightarrow> string \<Rightarrow> string \<Rightarrow> string \<Rightarrow> string \<Rightarrow> string \<Rightarrow> db" where
  "rename_in s tbl c g old new =
     (case s tbl of
        None \<Rightarrow> s
      | Some t \<Rightarrow> s(tbl \<mapsto> t\<lparr>rows := map (rename_row c g old new) (rows t)\<rparr>))"

section \<open>Objects that can be stored\<close>



definition persisted :: "(string \<times> affinity) list \<Rightarrow> pydict \<Rightarrow> pydict" where
  "persisted cols obj = map (\<lambda>(c, a). (c, cell obj c)) cols"

section \<open>Facts about the engine\<close>

lemmas schema_defs = groups_columns_def projects_columns_def databases_columns_def
  events_columns_def groups_key_def projects_key_def databases_key_def events_key_def

lemmas engine_defs = run_select_def run_insert_def run_update_def known_def matches_def
  holds_def cell_def key_of_def new_row_def keys_def vals_def

lemma wf_demo_db: "wf_db demo_db"
  by (simp add: wf_db_def has_table_def table_ok_def row_ok_def demo_db_def schema_defs
      engine_defs)

lemma keys_new_row: "keys (new_row t flds) = map fst (columns t)"
  by (simp add: new_row_def keys_def comp_def case_prod_unfold)

lemma coerce_not_None: "v \<noteq> PNone \<Longrightarrow> coerce a v \<noteq> PNone"
  by (cases a; cases v) (auto split: option.splits)

lemma run_insert_Inr:
  assumes "run_insert t flds = Inr t'"
  shows "t' = t\<lparr>rows := rows t @ [new_row t flds]\<rparr>"
  using assms by (auto simp: run_insert_def Let_def split: if_splits)

lemma storage_insert_not_KeyError: "fst (storage_insert s tbl flds) \<noteq> Inl KeyError"
  by (simp add: storage_insert_def run_insert_def Let_def split: option.splits sum.splits if_splits)

lemma storage_insert_success:
  assumes "fst (storage_insert s tbl flds) = Inr x"
  shows "\<exists>t. s tbl = Some t \<and> run_insert t flds = Inr (t\<lparr>rows := rows t @ [new_row t flds]\<rparr>)
           \<and> storage_insert s tbl flds = (Inr [], s(tbl \<mapsto> t\<lparr>rows := rows t @ [new_row t flds]\<rparr>))"
proof (cases "s tbl")
  case None
  then show ?thesis using assms by (simp add: storage_insert_def)
next
  case (Some t)
  show ?thesis
  proof (cases "run_insert t flds")
    case (Inl e)
    then show ?thesis using assms Some by (simp add: storage_insert_def)
  next
    case (Inr t')
    then have "t' = t\<lparr>rows := rows t @ [new_row t flds]\<rparr>" by (rule run_insert_Inr)
    then show ?thesis using Some Inr by (simp add: storage_insert_def)
  qed
qed

lemma returns_none_fst_Inl: "fst (returns_none r) = Inl e \<longleftrightarrow> fst r = Inl e"
  by (cases r rule: returns_none.cases) auto

lemma returns_none_fst_Inr: "fst (returns_none r) = Inr u \<longleftrightarrow> (\<exists>x. fst r = Inr x)"
  by (cases r rule: returns_none.cases) auto


lemma touch_None: "touch None P f rs = map (\<lambda>r. if P r then f r else r) rs"
  by (induction rs) auto

section \<open>Filters and limits of the generic statements\<close>

lemma filter_truthy_delete:
  assumes "\<And>v. (key, v) \<in> set flds \<Longrightarrow> \<not> truthy v"
  shows "filter (\<lambda>(k, v). truthy v) (AList.delete key flds) = filter (\<lambda>(k, v). truthy v) flds"
  using assms by (induction flds) (auto simp: AList.delete_eq)

lemma dict_entry_unique:
  assumes "distinct (keys flds)" and "map_of flds key = Some val" and "(key, v) \<in> set flds"
  shows "v = val"
  using assms by (simp add: keys_def)

text \<open>
  C3. An entry of the filter mapping whose value is false (the empty string, zero,
  \<^verbatim>\<open>None\<close>) never constrains the statement: \<^verbatim>\<open>_select\<close> returns, and \<^verbatim>\<open>_update\<close>
  with its search fields does, exactly what the same call does with that key left out of
  the mapping.
\<close>

theorem falsy_filter_is_omitted:
  assumes "distinct (keys flds)" and "map_of flds key = Some val" and "\<not> truthy val"
  shows "storage_select s tbl flds limit = storage_select s tbl (AList.delete key flds) limit
       \<and> storage_update s tbl field new_value flds limit
           = storage_update s tbl field new_value (AList.delete key flds) limit"
proof -
  have "\<And>v. (key, v) \<in> set flds \<Longrightarrow> \<not> truthy v"
    using assms dict_entry_unique by blast
  then have "filter (\<lambda>(k, v). truthy v) (AList.delete key flds) = filter (\<lambda>(k, v). truthy v) flds"
    by (rule filter_truthy_delete)
  then show ?thesis
    by (simp add: storage_select_def storage_update_def select_sql_def update_sql_def)
qed

theorem falsy_filter_is_omitted_witness:
  "distinct (keys [(''group_name'', PStr ''g''), (''name'', PStr '''')])
   \<and> map_of [(''group_name'', PStr ''g''), (''name'', PStr '''')] ''name'' = Some (PStr '''')
   \<and> \<not> truthy (PStr '''')
   \<and> storage_select demo_db ''projects'' [(''group_name'', PStr ''g''), (''name'', PStr '''')] None
       = storage_select demo_db ''projects'' [(''group_name'', PStr ''g'')] None
   \<and> storage_update demo_db ''projects'' ''hash'' (PStr ''x'')
         [(''group_name'', PStr ''g''), (''name'', PStr '''')] None
       = storage_update demo_db ''projects'' ''hash'' (PStr ''x'') [(''group_name'', PStr ''g'')] None"
  using falsy_filter_is_omitted [of "[(''group_name'', PStr ''g''), (''name'', PStr '''')]" "''name''"
      "PStr ''''" demo_db "''projects''" None "''hash''" "PStr ''x''"]
  by (simp add: keys_def)












section \<open>Insertion\<close>

lemma map_of_filter_truthy:
  assumes "distinct (keys d)"
  shows "map_of (filter (\<lambda>(k, v). truthy v) d) key =
           (case map_of d key of None \<Rightarrow> None | Some v \<Rightarrow> if truthy v then Some v else None)"
  using assms
proof (induction d)
  case Nil
  then show ?case by simp
next
  case (Cons kv d)
  obtain k v where kv: "kv = (k, v)" by (cases kv)
  have notin: "k \<notin> fst ` set d" using Cons.prems by (simp add: kv keys_def)
  then have none: "map_of d k = None" by (simp add: map_of_eq_None_iff)
  have "k \<notin> fst ` set (filter (\<lambda>(k, v). truthy v) d)" using notin by auto
  then have nonef: "map_of (filter (\<lambda>(k, v). truthy v) d) k = None"
    by (simp add: map_of_eq_None_iff)
  have ih: "map_of (filter (\<lambda>(k, v). truthy v) d) key =
           (case map_of d key of None \<Rightarrow> None | Some v \<Rightarrow> if truthy v then Some v else None)"
    using Cons by (simp add: keys_def)
  show ?case
    using ih none nonef by (auto simp: kv)
qed

text \<open>
  C9. \<^verbatim>\<open>insert_database\<close> raises \<^verbatim>\<open>KeyError\<close>, and leaves the database as it was,
  exactly for the objects whose attribute extraction yields no \<^verbatim>\<open>tick\<close> key, which are
  the objects whose tick is absent or false (\<^verbatim>\<open>0\<close>, \<^verbatim>\<open>None\<close>); it succeeds only for an
  object that carries a true tick.
\<close>

theorem insert_database_needs_truthy_tick:
  assumes "distinct (keys database)"
  shows "(insert_database s database = (Inl KeyError, s)
            \<longleftrightarrow> \<not> (\<exists>v. map_of database ''tick'' = Some v \<and> truthy v))
       \<and> (fst (insert_database s database) = Inr ()
            \<longrightarrow> (\<exists>v. map_of database ''tick'' = Some v \<and> truthy v))"
proof -
  have m: "map_of (Default_attrs database) ''tick'' =
           (case map_of database ''tick'' of None \<Rightarrow> None | Some v \<Rightarrow> if truthy v then Some v else None)"
    unfolding Default_attrs_def using assms by (rule map_of_filter_truthy)
  show ?thesis
  proof (cases "\<exists>v. map_of database ''tick'' = Some v \<and> truthy v")
    case True
    then obtain v where v: "map_of (Default_attrs database) ''tick'' = Some v"
      using m by auto
    have "fst (insert_database s database) \<noteq> Inl KeyError"
      using v storage_insert_not_KeyError [of s "''databases''"]
      by (simp add: insert_database_def returns_none_fst_Inl)
    then have "insert_database s database \<noteq> (Inl KeyError, s)" by auto
    then show ?thesis using True by simp
  next
    case False
    then have "map_of (Default_attrs database) ''tick'' = None"
      using m by (auto split: option.splits)
    then have "insert_database s database = (Inl KeyError, s)"
      by (simp add: insert_database_def)
    then show ?thesis using False by simp
  qed
qed

theorem insert_database_needs_truthy_tick_witness:
  "distinct (keys [(''group_name'', PStr ''g''), (''project'', PStr ''p1''), (''name'', PStr ''d2''),
                   (''date'', PStr ''2019''), (''tick'', PInt 0)])
   \<and> insert_database demo_db
        [(''group_name'', PStr ''g''), (''project'', PStr ''p1''), (''name'', PStr ''d2''),
         (''date'', PStr ''2019''), (''tick'', PInt 0)] = (Inl KeyError, demo_db)
   \<and> distinct (keys [(''group_name'', PStr ''g''), (''project'', PStr ''p1''), (''name'', PStr ''d2''),
                   (''date'', PStr ''2019''), (''tick'', PInt 7)])
   \<and> fst (insert_database demo_db
        [(''group_name'', PStr ''g''), (''project'', PStr ''p1''), (''name'', PStr ''d2''),
         (''date'', PStr ''2019''), (''tick'', PInt 7)]) = Inr ()
   \<and> map_of [(''group_name'', PStr ''g''), (''project'', PStr ''p1''), (''name'', PStr ''d2''),
         (''date'', PStr ''2019''), (''tick'', PInt 7)] ''tick'' = Some (PInt 7)"
  using insert_database_needs_truthy_tick [of
      "[(''group_name'', PStr ''g''), (''project'', PStr ''p1''), (''name'', PStr ''d2''),
        (''date'', PStr ''2019''), (''tick'', PInt 0)]" demo_db]
    insert_database_needs_truthy_tick [of
      "[(''group_name'', PStr ''g''), (''project'', PStr ''p1''), (''name'', PStr ''d2''),
        (''date'', PStr ''2019''), (''tick'', PInt 7)]" demo_db]
  by (simp add: keys_def insert_database_def Default_attrs_def storage_insert_def demo_db_def
      schema_defs run_insert_def known_def cell_def key_of_def new_row_def vals_def)

lemma new_row_not_None:
  assumes "set (keys flds) = set (map fst (columns t))" and "PNone \<notin> set (vals flds)"
  shows "PNone \<notin> set (vals (new_row t flds))"
proof -
  have cellnn: "cell flds c \<noteq> PNone" if "c \<in> set (map fst (columns t))" for c
  proof -
    from that assms(1) have "c \<in> fst ` set flds" by (simp add: keys_def)
    then obtain v where v: "map_of flds c = Some v"
      by (metis domD dom_map_of_conv_image_fst)
    then have "(c, v) \<in> set flds" by (rule map_of_SomeD)
    then have "v \<in> set (vals flds)" by (force simp: vals_def)
    with assms(2) have "v \<noteq> PNone" by auto
    with v show ?thesis by (simp add: cell_def)
  qed
  have "v \<noteq> PNone" if "v \<in> set (vals (new_row t flds))" for v
  proof -
    from that obtain c a where ca: "(c, a) \<in> set (columns t)" and v: "v = coerce a (cell flds c)"
      by (auto simp: new_row_def vals_def)
    from ca have "c \<in> set (map fst (columns t))" by force
    then have "cell flds c \<noteq> PNone" by (rule cellnn)
    then show ?thesis unfolding v by (rule coerce_not_None)
  qed
  then show ?thesis by blast
qed

lemma storage_insert_duplicate:
  assumes "s tbl = Some t"
    and "flds \<noteq> []"
    and "set (keys flds) = set (map fst (columns t))"
    and "PNone \<notin> set (vals flds)"
    and "key_of t (new_row t flds) \<in> set (map (key_of t) (rows t))"
  shows "storage_insert s tbl flds = (Inl (IntegrityError Unique), s)"
proof -
  have k: "known (columns t) (keys flds)"
    using assms(3) by (auto simp: known_def list_all_iff)
  have n: "PNone \<notin> set (vals (new_row t flds))"
    using assms(3,4) by (rule new_row_not_None)
  show ?thesis
    using assms(1,2,5) k n by (simp add: storage_insert_def run_insert_def Let_def)
qed

lemma has_tableD:
  assumes "has_table s tbl cols pk"
  obtains t where "s tbl = Some t" and "columns t = cols" and "primary_key t = pk"
    and "list_all (row_ok cols) (rows t)" and "distinct (map (key_of t) (rows t))"
  using assms by (auto simp: has_table_def table_ok_def split: option.splits)

lemma key_of_events:
  assumes "primary_key t = events_key"
  shows "key_of t r = [cell r ''group_name'', cell r ''project'', cell r ''database'', cell r ''tick'']"
  using assms by (simp add: key_of_def events_key_def)

lemma cell_event_row [simp]:
  "cell (event_row g p d k j) ''group_name'' = PStr g"
  "cell (event_row g p d k j) ''project'' = PStr p"
  "cell (event_row g p d k j) ''database'' = PStr d"
  "cell (event_row g p d k j) ''tick'' = PInt k"
  "cell (event_row g p d k j) ''dict'' = PStr j"
  by (simp_all add: cell_def event_row_def)

lemma new_row_event:
  assumes "columns t = events_columns"
  shows "new_row t (event_row g p d k j) = event_row g p d k j"
  using assms by (simp add: new_row_def events_columns_def cell_def event_row_def)

lemma row_ok_event_row: "row_ok events_columns (event_row g p d k j)"
  by (simp add: row_ok_def events_columns_def event_row_def keys_def cell_def)

lemma row_event_event_row [simp]: "row_event (event_row g p d k j) = new_event k j"
  by (simp add: row_event_def new_event_def text_of_def)

lemma in_scope_event_row [simp]:
  "in_scope g' p' d' (event_row g p d k j) \<longleftrightarrow> g' = g \<and> p' = p \<and> d' = d"
  by (auto simp: in_scope_def)

lemma tick_stored_iff:
  assumes "s ''events'' = Some t" and "primary_key t = events_key"
  shows "PInt k \<in> event_tick ` set (stored_events s g p d)
         \<longleftrightarrow> [PStr g, PStr p, PStr d, PInt k] \<in> set (map (key_of t) (rows t))"
proof
  assume "PInt k \<in> event_tick ` set (stored_events s g p d)"
  then obtain r where r: "r \<in> set (rows t)" "in_scope g p d r" "cell r ''tick'' = PInt k"
    using assms(1) by (auto simp: stored_events_def rows_of_def row_event_def)
  then have "key_of t r = [PStr g, PStr p, PStr d, PInt k]"
    using assms(2) by (simp add: key_of_events in_scope_def)
  with r(1) show "[PStr g, PStr p, PStr d, PInt k] \<in> set (map (key_of t) (rows t))"
    by force
next
  assume "[PStr g, PStr p, PStr d, PInt k] \<in> set (map (key_of t) (rows t))"
  then obtain r where r: "r \<in> set (rows t)" "key_of t r = [PStr g, PStr p, PStr d, PInt k]"
    by auto
  then have "in_scope g p d r" "event_tick (row_event r) = PInt k"
    using assms(2) by (simp_all add: key_of_events in_scope_def row_event_def)
  with r(1) have "row_event r \<in> set (stored_events s g p d)"
    using assms(1) by (simp add: stored_events_def rows_of_def)
  then show "PInt k \<in> event_tick ` set (stored_events s g p d)"
    using \<open>event_tick (row_event r) = PInt k\<close> by force
qed

lemma insert_event_eq:
  "insert_event s (scope g p d) (new_event k j)
     = returns_none (storage_insert s ''events'' (event_row g p d k j))"
  by (simp add: insert_event_def scope_def new_event_def event_row_def)

lemma insert_event_wf:
  assumes "wf_db s"
  shows "insert_event s (scope g p d) (new_event k j) =
           (if PInt k \<in> event_tick ` set (stored_events s g p d)
            then (Inl (IntegrityError Unique), s)
            else (Inr (), add_row s ''events'' (event_row g p d k j)))"
proof -
  from assms have "has_table s ''events'' events_columns events_key" by (simp add: wf_db_def)
  then obtain t where t: "s ''events'' = Some t" and c: "columns t = events_columns"
    and pk: "primary_key t = events_key"
    by (rule has_tableD)
  have nr: "new_row t (event_row g p d k j) = event_row g p d k j"
    using c by (rule new_row_event)
  have key: "key_of t (event_row g p d k j) = [PStr g, PStr p, PStr d, PInt k]"
    using pk by (simp add: key_of_events)
  have kn: "known (columns t) (keys (event_row g p d k j))"
    by (simp add: c known_def events_columns_def event_row_def keys_def)
  have nn: "PNone \<notin> set (vals (event_row g p d k j))"
    by (simp add: vals_def event_row_def)
  have ne: "event_row g p d k j \<noteq> []" by (simp add: event_row_def)
  have ri: "run_insert t (event_row g p d k j) =
      (if [PStr g, PStr p, PStr d, PInt k] \<in> set (map (key_of t) (rows t))
       then Inl (IntegrityError Unique)
       else Inr (t\<lparr>rows := rows t @ [event_row g p d k j]\<rparr>))"
    unfolding run_insert_def using kn nn ne by (simp add: nr key Let_def)
  show ?thesis
    unfolding insert_event_eq storage_insert_def
    using t pk ri tick_stored_iff [of s t k g p d]
    by (simp add: add_row_def)
qed

text \<open>
  C6. Inserting a row whose primary key is already in its table raises the engine's
  duplicate-key \<^verbatim>\<open>IntegrityError\<close>, which \<^verbatim>\<open>_insert\<close> passes on to its caller, and leaves
  the database, with the row stored under that key, as it was. In particular an event
  whose tick is already used in its scope is refused.
\<close>

theorem duplicate_key_raises:
  "(s tbl = Some t \<and> flds \<noteq> [] \<and> set (keys flds) = set (map fst (columns t))
      \<and> PNone \<notin> set (vals flds)
      \<and> key_of t (new_row t flds) \<in> set (map (key_of t) (rows t))
      \<longrightarrow> storage_insert s tbl flds = (Inl (IntegrityError Unique), s))
   \<and> (wf_db s \<and> PInt k \<in> event_tick ` set (stored_events s g p d)
      \<longrightarrow> insert_event s (scope g p d) (new_event k j) = (Inl (IntegrityError Unique), s))"
  using storage_insert_duplicate [of s tbl t flds] insert_event_wf [of s g p d k j]
  by simp

theorem duplicate_key_raises_witness:
  "demo_db ''groups'' = Some \<lparr>columns = groups_columns, primary_key = groups_key,
        rows = [[(''name'', PStr ''g''), (''date'', PStr ''2019'')]]\<rparr>
   \<and> [(''name'', PStr ''g''), (''date'', PStr ''2020'')] \<noteq> []
   \<and> set (keys [(''name'', PStr ''g''), (''date'', PStr ''2020'')]) = set (map fst groups_columns)
   \<and> PNone \<notin> set (vals [(''name'', PStr ''g''), (''date'', PStr ''2020'')])
   \<and> storage_insert demo_db ''groups'' [(''name'', PStr ''g''), (''date'', PStr ''2020'')]
       = (Inl (IntegrityError Unique), demo_db)
   \<and> wf_db demo_db
   \<and> PInt 3 \<in> event_tick ` set (stored_events demo_db ''g'' ''p1'' ''d1'')
   \<and> insert_event demo_db (scope ''g'' ''p1'' ''d1'') (new_event 3 ''zz'')
       = (Inl (IntegrityError Unique), demo_db)"
proof -
  have t: "demo_db ''groups'' = Some \<lparr>columns = groups_columns, primary_key = groups_key,
        rows = [[(''name'', PStr ''g''), (''date'', PStr ''2019'')]]\<rparr>"
    by (simp add: demo_db_def)
  have k: "set (keys [(''name'', PStr ''g''), (''date'', PStr ''2020'')]) = set (map fst groups_columns)"
    by (simp add: keys_def groups_columns_def)
  have st: "PInt 3 \<in> event_tick ` set (stored_events demo_db ''g'' ''p1'' ''d1'')"
    by (simp add: stored_events_def rows_of_def demo_db_def in_scope_def cell_def row_event_def)
  show ?thesis
    using duplicate_key_raises [of demo_db "''groups''"
        "\<lparr>columns = groups_columns, primary_key = groups_key,
          rows = [[(''name'', PStr ''g''), (''date'', PStr ''2019'')]]\<rparr>"
        "[(''name'', PStr ''g''), (''date'', PStr ''2020'')]" 3 "''g''" "''p1''" "''d1''" "''zz''"]
      t k st wf_demo_db
    by (simp add: vals_def key_of_def new_row_def groups_columns_def groups_key_def cell_def)
qed


lemma attrs_delete_update:
  "AList.delete k (Default_attrs (AList.update k v d)) = AList.delete k (Default_attrs d)"
proof -
  have "AList.delete k (Default_attrs (AList.update k v d))
      = Default_attrs (AList.delete k (AList.update k v d))"
    by (simp add: Default_attrs_def AList.delete_eq conj_commute)
  also have "\<dots> = Default_attrs (AList.delete k d)"
    by (simp add: AList.delete_update_same)
  also have "\<dots> = AList.delete k (Default_attrs d)"
    by (simp add: Default_attrs_def AList.delete_eq conj_commute)
  finally show ?thesis .
qed

lemma attrs_update_truthy:
  assumes "truthy v"
  shows "map_of (Default_attrs (AList.update k v d)) k = Some v"
  using assms by (induction d) (auto simp: Default_attrs_def)

lemma insert_database_cases:
  "insert_database s database =
     (if ''tick'' \<in> set (keys (Default_attrs database))
      then returns_none
             (storage_insert s ''databases'' (AList.delete ''tick'' (Default_attrs database)))
      else (Inl KeyError, s))"
proof (cases "map_of (Default_attrs database) ''tick''")
  case None
  then have "''tick'' \<notin> set (keys (Default_attrs database))"
    by (simp add: keys_def map_of_eq_None_iff)
  with None show ?thesis by (simp add: insert_database_def)
next
  case (Some v)
  then have "''tick'' \<in> set (keys (Default_attrs database))"
    unfolding keys_def by (metis map_of_eq_None_iff option.distinct(1) set_map)
  with Some show ?thesis by (simp add: insert_database_def)
qed

lemma insert_database_rows:
  assumes "wf_db s" and "fst (insert_database s database) = Inr ()"
  shows "list_all (\<lambda>r. keys r = map fst databases_columns)
           (rows_of (snd (insert_database s database)) ''databases'')"
proof -
  from assms(1) have "has_table s ''databases'' databases_columns databases_key"
    by (simp add: wf_db_def)
  then obtain t where t: "s ''databases'' = Some t" and c: "columns t = databases_columns"
    and ok: "list_all (row_ok databases_columns) (rows t)"
    by (rule has_tableD)
  let ?flds = "AList.delete ''tick'' (Default_attrs database)"
  from assms(2) have "fst (returns_none (storage_insert s ''databases'' ?flds)) = Inr ()"
    by (simp add: insert_database_cases split: if_splits)
  then obtain x where x: "fst (storage_insert s ''databases'' ?flds) = Inr x"
    by (auto simp: returns_none_fst_Inr)
  from storage_insert_success [OF x] t
  have si: "storage_insert s ''databases'' ?flds
      = (Inr [], s(''databases'' \<mapsto> t\<lparr>rows := rows t @ [new_row t ?flds]\<rparr>))"
    by auto
  have "insert_database s database
      = (Inr (), s(''databases'' \<mapsto> t\<lparr>rows := rows t @ [new_row t ?flds]\<rparr>))"
    using assms(2) si by (simp add: insert_database_cases split: if_splits)
  then have "rows_of (snd (insert_database s database)) ''databases''
      = rows t @ [new_row t ?flds]"
    by (simp add: rows_of_def)
  moreover have "list_all (\<lambda>r. keys r = map fst databases_columns) (rows t)"
    using ok by (simp add: list_all_iff row_ok_def)
  moreover have "keys (new_row t ?flds) = map fst databases_columns"
    by (simp add: keys_new_row c)
  ultimately show ?thesis by simp
qed

text \<open>
  C8. The column mapping that \<^verbatim>\<open>insert_database\<close> hands to \<^verbatim>\<open>_insert\<close> has no \<^verbatim>\<open>tick\<close>
  key, whatever the object carries; the outcome is the same for any two true ticks of the
  object; and no row of the databases table has a tick column after the insertion.
\<close>

theorem insert_database_omits_tick:
  "insert_database s database =
     (if ''tick'' \<in> set (keys (Default_attrs database))
      then returns_none
             (storage_insert s ''databases'' (AList.delete ''tick'' (Default_attrs database)))
      else (Inl KeyError, s))
   \<and> ''tick'' \<notin> set (keys (AList.delete ''tick'' (Default_attrs database)))
   \<and> (truthy t1 \<and> truthy t2 \<longrightarrow>
        insert_database s (AList.update ''tick'' t1 database)
          = insert_database s (AList.update ''tick'' t2 database))
   \<and> (wf_db s \<and> fst (insert_database s database) = Inr () \<longrightarrow>
        list_all (\<lambda>r. ''tick'' \<notin> set (keys r))
          (rows_of (snd (insert_database s database)) ''databases''))"
proof -
  have a: "''tick'' \<notin> set (keys (AList.delete ''tick'' (Default_attrs database)))"
    by (simp add: keys_def AList.delete_notin_dom)
  have b: "insert_database s (AList.update ''tick'' t1 database)
          = insert_database s (AList.update ''tick'' t2 database)"
    if "truthy t1" and "truthy t2"
    using that by (simp add: insert_database_def attrs_update_truthy attrs_delete_update)
  have c: "list_all (\<lambda>r. ''tick'' \<notin> set (keys r))
          (rows_of (snd (insert_database s database)) ''databases'')"
    if "wf_db s" and "fst (insert_database s database) = Inr ()"
  proof -
    have "list_all (\<lambda>r. keys r = map fst databases_columns)
           (rows_of (snd (insert_database s database)) ''databases'')"
      using that by (rule insert_database_rows)
    then show ?thesis
      by (simp add: list_all_iff databases_columns_def)
  qed
  show ?thesis
    using a b c insert_database_cases [of s database] by blast
qed

theorem insert_database_omits_tick_witness:
  "truthy (PInt 7) \<and> truthy (PInt 8) \<and> wf_db demo_db
   \<and> fst (insert_database demo_db
        [(''group_name'', PStr ''g''), (''project'', PStr ''p1''), (''name'', PStr ''d2''),
         (''date'', PStr ''2019''), (''tick'', PInt 7)]) = Inr ()
   \<and> insert_database demo_db
        [(''group_name'', PStr ''g''), (''project'', PStr ''p1''), (''name'', PStr ''d2''),
         (''date'', PStr ''2019''), (''tick'', PInt 7)]
     = insert_database demo_db
        [(''group_name'', PStr ''g''), (''project'', PStr ''p1''), (''name'', PStr ''d2''),
         (''date'', PStr ''2019''), (''tick'', PInt 8)]
   \<and> rows_of (snd (insert_database demo_db
        [(''group_name'', PStr ''g''), (''project'', PStr ''p1''), (''name'', PStr ''d2''),
         (''date'', PStr ''2019''), (''tick'', PInt 7)])) ''databases''
     = [[(''group_name'', PStr ''g''), (''project'', PStr ''p1''), (''name'', PStr ''d1''),
         (''date'', PStr ''2019'')],
        [(''group_name'', PStr ''g''), (''project'', PStr ''p1''), (''name'', PStr ''d2''),
         (''date'', PStr ''2019'')]]"
  using insert_database_omits_tick [of demo_db
      "[(''group_name'', PStr ''g''), (''project'', PStr ''p1''), (''name'', PStr ''d2''),
        (''date'', PStr ''2019''), (''tick'', PInt 7)]" "PInt 7" "PInt 8"]
    wf_demo_db
  by (simp add: keys_def insert_database_def Default_attrs_def storage_insert_def demo_db_def
      schema_defs run_insert_def known_def cell_def key_of_def new_row_def vals_def rows_of_def)


section \<open>The event log\<close>

lemma sql_test_Eq_PStr: "sql_test Eq v (PStr x) = (v = PStr x)"
  by (cases v) auto

lemma sql_test_Gt_PInt: "sql_test Gt (PInt i) (PInt k) = (k < i)"
  by (simp add: less_prod_def)

lemma sql_key_PInt_le: "sql_key (PInt i) \<le> sql_key (PInt k) \<longleftrightarrow> i \<le> k"
  by (auto simp: less_eq_prod_def)

lemma row_ok_events:
  assumes "row_ok events_columns r"
  obtains i j where "cell r ''tick'' = PInt i" and "cell r ''dict'' = PStr j"
proof -
  from assms have a: "fits INTEGER (cell r ''tick'')" and b: "fits TEXT (cell r ''dict'')"
    by (simp_all add: row_ok_def events_columns_def)
  from a obtain i where "cell r ''tick'' = PInt i" by (cases "cell r ''tick''") auto
  moreover from b obtain j where "cell r ''dict'' = PStr j" by (cases "cell r ''dict''") auto
  ultimately show ?thesis using that by blast
qed

lemma matches_scope:
  "matches events_columns
     [(''group_name'', Eq, PStr g), (''project'', Eq, PStr p), (''database'', Eq, PStr d)] r
   \<longleftrightarrow> in_scope g p d r"
  by (simp add: matches_def holds_def events_columns_def in_scope_def sql_test_Eq_PStr)

lemma matches_scope_since:
  assumes "row_ok events_columns r"
  shows "matches events_columns
     [(''group_name'', Eq, PStr g), (''project'', Eq, PStr p), (''database'', Eq, PStr d),
      (''tick'', Gt, PInt k)] r
   \<longleftrightarrow> in_scope g p d r \<and> k < int_of (cell r ''tick'')"
proof -
  from assms obtain i j where i: "cell r ''tick'' = PInt i" by (rule row_ok_events)
  show ?thesis
    by (simp add: matches_def holds_def events_columns_def in_scope_def sql_test_Eq_PStr i
        sql_test_Gt_PInt int_of_def)
qed

lemma build_all_map:
  assumes "\<And>x. x \<in> set xs \<Longrightarrow> f x = Inr (g x)"
  shows "build_all f xs = Inr (map g xs)"
  using assms by (induction xs) simp_all

lemma load_event_row:
  assumes "row_ok events_columns r"
  shows "load_event r = Inr (row_event r)"
proof -
  from assms obtain i j where "cell r ''dict'' = PStr j" by (rule row_ok_events)
  then show ?thesis by (simp add: load_event_def row_event_def text_of_def)
qed

lemma tick_of_row_event [simp]: "tick_of (row_event r) = int_of (cell r ''tick'')"
  by (simp add: tick_of_def row_event_def)

lemma wf_events:
  assumes "wf_db s"
  obtains t where "s ''events'' = Some t" and "columns t = events_columns"
    and "primary_key t = events_key" and "list_all (row_ok events_columns) (rows t)"
    and "distinct (map (key_of t) (rows t))"
proof -
  from assms have "has_table s ''events'' events_columns events_key" by (simp add: wf_db_def)
  then show ?thesis using that by (rule has_tableD)
qed

lemma known_events_columns:
  "known events_columns [''group_name'', ''project'', ''database'', ''tick'', ''tick'']"
  "known events_columns [''group_name'', ''project'', ''database'', ''tick'', ''tick'', ''tick'']"
  "known events_columns [''group_name'', ''project'', ''database'', ''tick'']"
  by (simp_all add: known_def events_columns_def)

lemma map_projected_None [simp]: "map (projected None) rs = rs"
  by (induction rs) simp_all

lemma select_events_wf:
  assumes "wf_db s"
  shows "select_events s (PStr g) (PStr p) (PStr d) (PInt k) =
     Inr (map row_event
            (sort_key (\<lambda>r. sql_key (cell r ''tick''))
               (filter (\<lambda>r. in_scope g p d r \<and> k < int_of (cell r ''tick''))
                  (rows_of s ''events''))))"
proof -
  from assms obtain t where t: "s ''events'' = Some t" and c: "columns t = events_columns"
    and ok: "list_all (row_ok events_columns) (rows t)"
    by (rule wf_events)
  let ?conds = "[(''group_name'', Eq, PStr g), (''project'', Eq, PStr p),
      (''database'', Eq, PStr d), (''tick'', Gt, PInt k)]"
  let ?P = "\<lambda>r. in_scope g p d r \<and> k < int_of (cell r ''tick'')"
  let ?rs = "sort_key (\<lambda>r. sql_key (cell r ''tick'')) (filter ?P (rows t))"
  have f: "filter (matches events_columns ?conds) (rows t) = filter ?P (rows t)"
  proof (rule filter_cong [OF refl])
    fix r assume "r \<in> set (rows t)"
    with ok have "row_ok events_columns r" by (simp add: list_all_iff)
    then show "matches events_columns ?conds r = ?P r" by (rule matches_scope_since)
  qed
  have rs: "run_select t None ?conds (Some (''tick'', Asc)) None = Inr ?rs"
    by (simp add: run_select_def c known_events_columns f)
  have "build_all load_event ?rs = Inr (map row_event ?rs)"
  proof (rule build_all_map)
    fix r assume "r \<in> set ?rs"
    then have "r \<in> set (rows t)" by simp
    with ok have "row_ok events_columns r" by (simp add: list_all_iff)
    then show "load_event r = Inr (row_event r)" by (rule load_event_row)
  qed
  then show ?thesis
    using t rs by (simp add: select_events_def rows_of_def)
qed

lemma scope_ticks_distinct:
  assumes "wf_db s"
  shows "distinct (map (\<lambda>r. cell r ''tick'') (filter (in_scope g p d) (rows_of s ''events'')))"
proof -
  from assms obtain t where t: "s ''events'' = Some t" and pk: "primary_key t = events_key"
    and dist: "distinct (map (key_of t) (rows t))"
    by (rule wf_events)
  have "distinct (map (key_of t) (filter (in_scope g p d) (rows t)))"
    using dist by (rule distinct_map_filter)
  moreover have "map (key_of t) (filter (in_scope g p d) (rows t))
      = map (\<lambda>r. [PStr g, PStr p, PStr d, cell r ''tick'']) (filter (in_scope g p d) (rows t))"
    by (rule map_cong [OF refl]) (simp add: key_of_events [OF pk] in_scope_def)
  ultimately have "distinct (map (\<lambda>r. [PStr g, PStr p, PStr d, cell r ''tick''])
      (filter (in_scope g p d) (rows t)))"
    by simp
  then have "distinct (map (\<lambda>v. [PStr g, PStr p, PStr d, v])
      (map (\<lambda>r. cell r ''tick'') (filter (in_scope g p d) (rows t))))"
    by (simp add: comp_def)
  then have "distinct (map (\<lambda>r. cell r ''tick'') (filter (in_scope g p d) (rows t)))"
    using distinct_map by blast
  then show ?thesis using t by (simp add: rows_of_def)
qed


lemma inj_sql_key: "inj sql_key"
proof (rule injI)
  fix a b assume "sql_key a = sql_key b"
  then show "a = b" by (cases a; cases b) auto
qed

lemma sql_key_PInt_less: "sql_key (PInt i) < sql_key (PInt k) \<longleftrightarrow> i < k"
  by (auto simp: less_prod_def)

lemma sorted_ticks:
  assumes "wf_db s"
  shows "sorted_wrt (<)
     (map (\<lambda>r. int_of (cell r ''tick''))
        (sort_key (\<lambda>r. sql_key (cell r ''tick''))
           (filter (\<lambda>r. in_scope g p d r \<and> k < int_of (cell r ''tick''))
              (rows_of s ''events''))))"
proof -
  let ?P = "\<lambda>r. in_scope g p d r \<and> k < int_of (cell r ''tick'')"
  let ?key = "\<lambda>r. sql_key (cell r ''tick'')"
  let ?xs = "filter ?P (rows_of s ''events'')"
  let ?rs = "sort_key ?key ?xs"
  from assms obtain t where t: "s ''events'' = Some t"
    and ok: "list_all (row_ok events_columns) (rows t)"
    by (rule wf_events)
  have "distinct (map (\<lambda>r. cell r ''tick'') (filter (in_scope g p d) (rows_of s ''events'')))"
    using assms by (rule scope_ticks_distinct)
  then have "distinct (map (\<lambda>r. cell r ''tick'')
      (filter (\<lambda>r. k < int_of (cell r ''tick'')) (filter (in_scope g p d) (rows_of s ''events''))))"
    by (rule distinct_map_filter)
  then have "distinct (map (\<lambda>r. cell r ''tick'') ?xs)"
    by (simp add: conj_commute)
  then have "distinct (map sql_key (map (\<lambda>r. cell r ''tick'') ?xs))"
    using inj_sql_key by (simp only: distinct_map) (auto intro: inj_on_subset)
  then have "distinct (map ?key ?xs)" by (simp add: comp_def)
  then have "distinct (map ?key ?rs)" by (simp add: distinct_map)
  moreover have "sorted (map ?key ?rs)" by (rule sorted_sort_key)
  ultimately have "sorted_wrt (<) (map ?key ?rs)" by (simp add: strict_sorted_iff)
  then have strict: "sorted_wrt (\<lambda>a b. ?key a < ?key b) ?rs" by (simp add: sorted_wrt_map)
  have "sorted_wrt (\<lambda>a b. int_of (cell a ''tick'') < int_of (cell b ''tick'')) ?rs"
  proof (rule sorted_wrt_mono_rel [OF _ strict])
    fix a b assume "a \<in> set ?rs" and "b \<in> set ?rs" and lt: "?key a < ?key b"
    then have "a \<in> set (rows t)" and "b \<in> set (rows t)" using t by (simp_all add: rows_of_def)
    with ok have "row_ok events_columns a" and "row_ok events_columns b"
      by (simp_all add: list_all_iff)
    then obtain i i' where "cell a ''tick'' = PInt i" and "cell b ''tick'' = PInt i'"
      by (metis row_ok_events)
    with lt show "int_of (cell a ''tick'') < int_of (cell b ''tick'')"
      by (simp add: sql_key_PInt_less int_of_def)
  qed
  then show ?thesis by (simp add: sorted_wrt_map)
qed

text \<open>
  C1. For every scope and every tick \<open>k\<close>, zero included, \<^verbatim>\<open>select_events\<close> returns
  exactly the events stored for the scope whose tick is greater than \<open>k\<close>, in strictly
  ascending order of their ticks; so it returns no event with a tick of at most \<open>k\<close>.
\<close>

theorem select_events_since:
  assumes "wf_db s"
  shows "\<exists>es. select_events s (PStr g) (PStr p) (PStr d) (PInt k) = Inr es
           \<and> set es = {e \<in> set (stored_events s g p d). k < tick_of e}
           \<and> sorted_wrt (<) (map tick_of es)"
proof -
  let ?P = "\<lambda>r. in_scope g p d r \<and> k < int_of (cell r ''tick'')"
  let ?rs = "sort_key (\<lambda>r. sql_key (cell r ''tick'')) (filter ?P (rows_of s ''events''))"
  have sel: "select_events s (PStr g) (PStr p) (PStr d) (PInt k) = Inr (map row_event ?rs)"
    using assms by (rule select_events_wf)
  have "set (map row_event ?rs) = {e \<in> set (stored_events s g p d). k < tick_of e}"
    by (auto simp: stored_events_def)
  moreover have "sorted_wrt (<) (map tick_of (map row_event ?rs))"
    using sorted_ticks [OF assms, of g p d k] by (simp add: comp_def)
  ultimately show ?thesis using sel by blast
qed

theorem select_events_since_witness:
  "wf_db demo_db
   \<and> select_events demo_db (PStr ''g'') (PStr ''p1'') (PStr ''d1'') (PInt 1)
       = Inr [new_event 3 ''a'', new_event 5 ''c'']
   \<and> select_events demo_db (PStr ''g'') (PStr ''p1'') (PStr ''d1'') (PInt 0)
       = Inr [new_event 1 ''b'', new_event 3 ''a'', new_event 5 ''c'']
   \<and> stored_events demo_db ''g'' ''p1'' ''d1''
       = [new_event 3 ''a'', new_event 1 ''b'', new_event 5 ''c'']"
  using select_events_since [OF wf_demo_db, of "''g''" "''p1''" "''d1''" 1] wf_demo_db
  by (simp add: select_events_def demo_db_def schema_defs engine_defs load_event_def
      build_all.simps stored_events_def rows_of_def in_scope_def row_event_def text_of_def
      new_event_def less_eq_prod_def less_prod_def)


lemma sorted_le_last:
  fixes xs :: "'a::linorder list"
  assumes "sorted xs" and "x \<in> set xs"
  shows "x \<le> last xs"
  using assms by (induction xs) auto

lemma take_1_rev: "ys \<noteq> [] \<Longrightarrow> take (Suc 0) (rev ys) = [last ys]"
  by (induction ys rule: rev_induct) simp_all

lemma stored_events_Nil:
  "stored_events s g p d = [] \<longleftrightarrow> filter (in_scope g p d) (rows_of s ''events'') = []"
  by (simp add: stored_events_def)

lemma last_tick_wf:
  assumes "wf_db s"
  shows "last_tick s (PStr g) (PStr p) (PStr d) =
     Inr (PInt (if stored_events s g p d = [] then 0
                else Max (tick_of ` set (stored_events s g p d))))"
proof -
  from assms obtain t where t: "s ''events'' = Some t" and c: "columns t = events_columns"
    and ok: "list_all (row_ok events_columns) (rows t)"
    by (rule wf_events)
  let ?conds = "[(''group_name'', Eq, PStr g), (''project'', Eq, PStr p),
      (''database'', Eq, PStr d)]"
  let ?key = "\<lambda>r. sql_key (cell r ''tick'')"
  let ?xs = "filter (in_scope g p d) (rows t)"
  let ?ys = "sort_key ?key ?xs"
  have rows: "rows_of s ''events'' = rows t" using t by (simp add: rows_of_def)
  have f: "filter (matches events_columns ?conds) (rows t) = ?xs"
    by (rule filter_cong [OF refl]) (rule matches_scope)
  have rs: "run_select t (Some [''tick'']) ?conds (Some (''tick'', Desc)) (Some 1)
      = Inr (map (projected (Some [''tick''])) (take (Suc 0) (rev ?ys)))"
    by (simp add: run_select_def c known_events_columns f)
  show ?thesis
  proof (cases "?xs = []")
    case True
    then have "stored_events s g p d = []" by (simp add: stored_events_Nil rows)
    moreover have "last_tick s (PStr g) (PStr p) (PStr d) = Inr (PInt 0)"
      using t rs True by (simp add: last_tick_def)
    ultimately show ?thesis by simp
  next
    case False
    then have ne: "?ys \<noteq> []" by (metis length_sort length_0_conv)
    have nonempty: "stored_events s g p d \<noteq> []" using False by (simp add: stored_events_Nil rows)
    let ?m = "last ?ys"
    have "?m \<in> set ?ys" using ne by (rule last_in_set)
    then have m_in: "?m \<in> set ?xs" by simp
    then have "?m \<in> set (rows t)" by simp
    with ok have "row_ok events_columns ?m" by (simp add: list_all_iff)
    then obtain i where i: "cell ?m ''tick'' = PInt i" by (metis row_ok_events)
    have lt: "last_tick s (PStr g) (PStr p) (PStr d) = Inr (PInt i)"
      using t rs ne i by (simp add: last_tick_def take_1_rev cell_def)
    have ticks: "tick_of ` set (stored_events s g p d) = (\<lambda>r. int_of (cell r ''tick'')) ` set ?xs"
      by (simp add: stored_events_def rows image_image)
    have "Max ((\<lambda>r. int_of (cell r ''tick'')) ` set ?xs) = i"
    proof (rule Max_eqI)
      show "finite ((\<lambda>r. int_of (cell r ''tick'')) ` set ?xs)" by simp
      show "i \<in> (\<lambda>r. int_of (cell r ''tick'')) ` set ?xs"
        using m_in i by (force simp: int_of_def)
    next
      fix y assume "y \<in> (\<lambda>r. int_of (cell r ''tick'')) ` set ?xs"
      then obtain r where r: "r \<in> set ?xs" and y: "y = int_of (cell r ''tick'')" by auto
      from r have "r \<in> set (rows t)" by simp
      with ok have "row_ok events_columns r" by (simp add: list_all_iff)
      then obtain i' where i': "cell r ''tick'' = PInt i'" by (metis row_ok_events)
      have "sorted (map ?key ?ys)" by (rule sorted_sort_key)
      moreover have "?key r \<in> set (map ?key ?ys)" using r by simp
      ultimately have "?key r \<le> last (map ?key ?ys)" by (rule sorted_le_last)
      then have "?key r \<le> ?key ?m" using ne by (simp add: last_map)
      then have "sql_key (PInt i') \<le> sql_key (PInt i)" by (simp only: i i')
      then have "i' \<le> i" by (simp only: sql_key_PInt_le)
      then show "y \<le> i" by (simp add: y i' int_of_def)
    qed
    then show ?thesis using lt nonempty ticks by simp
  qed
qed

lemma has_table_other:
  assumes "tbl' \<noteq> tbl"
  shows "has_table (add_row s tbl r) tbl' cols pk = has_table s tbl' cols pk"
  using assms by (simp add: has_table_def add_row_def split: option.splits)

lemma rows_of_add_row:
  assumes "s tbl = Some t"
  shows "rows_of (add_row s tbl r) tbl = rows t @ [r]"
  using assms by (simp add: rows_of_def add_row_def)

lemma key_of_rows_update [simp]: "key_of (t\<lparr>rows := rs\<rparr>) = key_of t"
  by (simp add: key_of_def fun_eq_iff)

lemma wf_add_event:
  assumes "wf_db s" and "PInt k \<notin> event_tick ` set (stored_events s g p d)"
  shows "wf_db (add_row s ''events'' (event_row g p d k j))"
proof -
  from assms(1) obtain t where t: "s ''events'' = Some t" and c: "columns t = events_columns"
    and pk: "primary_key t = events_key" and ok: "list_all (row_ok events_columns) (rows t)"
    and dist: "distinct (map (key_of t) (rows t))"
    by (rule wf_events)
  have fresh: "key_of t (event_row g p d k j) \<notin> set (map (key_of t) (rows t))"
    using assms(2) tick_stored_iff [of s t k g p d] t pk by (simp add: key_of_events)
  have "table_ok events_columns events_key (t\<lparr>rows := rows t @ [event_row g p d k j]\<rparr>)"
    using c pk ok dist fresh by (simp add: table_ok_def row_ok_event_row)
  then have "has_table (add_row s ''events'' (event_row g p d k j)) ''events''
      events_columns events_key"
    using t by (simp add: has_table_def add_row_def)
  then show ?thesis
    using assms(1) by (simp add: wf_db_def has_table_other)
qed

lemma stored_events_add_event:
  assumes "wf_db s"
  shows "stored_events (add_row s ''events'' (event_row g p d k j)) g' p' d' =
     stored_events s g' p' d' @ (if g' = g \<and> p' = p \<and> d' = d then [new_event k j] else [])"
proof -
  from assms obtain t where t: "s ''events'' = Some t" by (rule wf_events)
  show ?thesis
    using t by (simp add: stored_events_def rows_of_add_row) (simp add: rows_of_def)
qed

lemma wf_initialize: "wf_db (initialize Map.empty)"
  by (simp add: initialize_def storage_create_def wf_db_def has_table_def table_ok_def)

lemma rows_of_initialize: "rows_of (initialize Map.empty) tbl = []"
  by (simp add: initialize_def storage_create_def rows_of_def)


lemma insert_event_fresh:
  assumes "wf_db s" and "PInt k \<notin> event_tick ` set (stored_events s g p d)"
  shows "insert_event s (scope g p d) (new_event k j)
           = (Inr (), add_row s ''events'' (event_row g p d k j))"
    and "wf_db (add_row s ''events'' (event_row g p d k j))"
    and "stored_events (add_row s ''events'' (event_row g p d k j)) g p d
           = stored_events s g p d @ [new_event k j]"
proof -
  show "insert_event s (scope g p d) (new_event k j)
           = (Inr (), add_row s ''events'' (event_row g p d k j))"
    using assms by (simp add: insert_event_wf)
  show "wf_db (add_row s ''events'' (event_row g p d k j))"
    using assms by (rule wf_add_event)
  show "stored_events (add_row s ''events'' (event_row g p d k j)) g p d
           = stored_events s g p d @ [new_event k j]"
    using assms(1) by (simp add: stored_events_add_event)
qed

lemma event_tick_new_event [simp]: "event_tick (new_event k j) = PInt k"
  by (simp add: new_event_def)

lemma tick_of_new_event [simp]: "tick_of (new_event k j) = k"
  by (simp add: new_event_def tick_of_def int_of_def)

text \<open>
  C2. \<^verbatim>\<open>last_tick\<close> returns the greatest tick among the events stored for the scope,
  and 0 when the scope has no event. In particular, after the events with the ticks 3, 1
  and 5 have been inserted, in that order, into a scope that had none, it returns 5.
\<close>

theorem last_tick_is_maximum:
  assumes "wf_db s"
  shows "last_tick s (PStr g) (PStr p) (PStr d) =
           Inr (PInt (if stored_events s g p d = [] then 0
                      else Max (tick_of ` set (stored_events s g p d))))
       \<and> (stored_events s g p d = [] \<longrightarrow>
            (\<exists>s1 s2 s3.
               insert_event s (scope g p d) (new_event 3 j1) = (Inr (), s1)
             \<and> insert_event s1 (scope g p d) (new_event 1 j2) = (Inr (), s2)
             \<and> insert_event s2 (scope g p d) (new_event 5 j3) = (Inr (), s3)
             \<and> last_tick s3 (PStr g) (PStr p) (PStr d) = Inr (PInt 5)))"
proof
  show "last_tick s (PStr g) (PStr p) (PStr d) =
           Inr (PInt (if stored_events s g p d = [] then 0
                      else Max (tick_of ` set (stored_events s g p d))))"
    using assms by (rule last_tick_wf)
next
  show "stored_events s g p d = [] \<longrightarrow>
            (\<exists>s1 s2 s3.
               insert_event s (scope g p d) (new_event 3 j1) = (Inr (), s1)
             \<and> insert_event s1 (scope g p d) (new_event 1 j2) = (Inr (), s2)
             \<and> insert_event s2 (scope g p d) (new_event 5 j3) = (Inr (), s3)
             \<and> last_tick s3 (PStr g) (PStr p) (PStr d) = Inr (PInt 5))"
  proof
    assume empty: "stored_events s g p d = []"
    let ?s1 = "add_row s ''events'' (event_row g p d 3 j1)"
    let ?s2 = "add_row ?s1 ''events'' (event_row g p d 1 j2)"
    let ?s3 = "add_row ?s2 ''events'' (event_row g p d 5 j3)"
    have f1: "PInt 3 \<notin> event_tick ` set (stored_events s g p d)" using empty by simp
    note i1 = insert_event_fresh [OF assms f1, of j1]
    have f2: "PInt 1 \<notin> event_tick ` set (stored_events ?s1 g p d)"
      by (simp add: i1(3) empty)
    note i2 = insert_event_fresh [OF i1(2) f2, of j2]
    have f3: "PInt 5 \<notin> event_tick ` set (stored_events ?s2 g p d)"
      by (simp add: i2(3) i1(3) empty)
    note i3 = insert_event_fresh [OF i2(2) f3, of j3]
    have st: "stored_events ?s3 g p d = [new_event 3 j1, new_event 1 j2, new_event 5 j3]"
      by (simp add: i3(3) i2(3) i1(3) empty)
    have "last_tick ?s3 (PStr g) (PStr p) (PStr d) = Inr (PInt 5)"
      by (simp add: last_tick_wf [OF i3(2)] st)
    with i1(1) i2(1) i3(1) show "\<exists>s1 s2 s3.
               insert_event s (scope g p d) (new_event 3 j1) = (Inr (), s1)
             \<and> insert_event s1 (scope g p d) (new_event 1 j2) = (Inr (), s2)
             \<and> insert_event s2 (scope g p d) (new_event 5 j3) = (Inr (), s3)
             \<and> last_tick s3 (PStr g) (PStr p) (PStr d) = Inr (PInt 5)"
      by blast
  qed
qed

theorem last_tick_is_maximum_witness:
  "wf_db (initialize Map.empty)
   \<and> stored_events (initialize Map.empty) ''g'' ''p1'' ''d1'' = []
   \<and> last_tick (initialize Map.empty) (PStr ''g'') (PStr ''p1'') (PStr ''d1'') = Inr (PInt 0)
   \<and> (\<exists>s1 s2 s3.
         insert_event (initialize Map.empty) (scope ''g'' ''p1'' ''d1'') (new_event 3 ''a'')
           = (Inr (), s1)
       \<and> insert_event s1 (scope ''g'' ''p1'' ''d1'') (new_event 1 ''b'') = (Inr (), s2)
       \<and> insert_event s2 (scope ''g'' ''p1'' ''d1'') (new_event 5 ''c'') = (Inr (), s3)
       \<and> last_tick s3 (PStr ''g'') (PStr ''p1'') (PStr ''d1'') = Inr (PInt 5))
   \<and> wf_db demo_db
   \<and> last_tick demo_db (PStr ''g'') (PStr ''p1'') (PStr ''d1'') = Inr (PInt 5)"
proof -
  have e: "stored_events (initialize Map.empty) ''g'' ''p1'' ''d1'' = []"
    by (simp add: stored_events_def rows_of_initialize)
  have m: "Max (tick_of ` set (stored_events demo_db ''g'' ''p1'' ''d1'')) = 5"
    by (simp add: stored_events_def rows_of_def demo_db_def in_scope_def cell_def row_event_def
        tick_of_def int_of_def)
  have n: "stored_events demo_db ''g'' ''p1'' ''d1'' \<noteq> []"
    by (simp add: stored_events_def rows_of_def demo_db_def in_scope_def cell_def)
  show ?thesis
    using last_tick_is_maximum [OF wf_initialize, of "''g''" "''p1''" "''d1''" "''a''" "''b''" "''c''"]
      last_tick_is_maximum [OF wf_demo_db, of "''g''" "''p1''" "''d1''"]
      e m n wf_initialize wf_demo_db
    by simp
qed


section \<open>Single-entity lookups\<close>

text \<open>
  C4. \<^verbatim>\<open>select_group\<close> and \<^verbatim>\<open>select_database\<close> are the multi-entity select with the
  identity criteria and \<^verbatim>\<open>limit = 1\<close>. \<^verbatim>\<open>select_project(name)\<close> is not: its call
  \<^verbatim>\<open>select_projects(name, 1)\<close> looks for a project of the group \<^verbatim>\<open>name\<close> whose name
  is \<^verbatim>\<open>1\<close>, without a limit. In the example database the project \<^verbatim>\<open>p1\<close> of the
  group \<^verbatim>\<open>g\<close> exists and \<^verbatim>\<open>select_project("p1")\<close> returns \<^verbatim>\<open>None\<close>.
\<close>

theorem select_project_misses_existing:
  "select_projects demo_db PNone (PStr ''p1'') (Some 1)
     = Inr [[(''group_name'', PStr ''g''), (''name'', PStr ''p1''), (''hash'', PStr ''h''),
             (''file'', PStr ''f''), (''type'', PStr ''t''), (''date'', PStr ''2019'')]]
   \<and> select_project demo_db (PStr ''p1'') = Inr None
   \<and> select_project demo_db (PStr ''p1'')
       = first_or_none (select_projects demo_db (PStr ''p1'') (PInt 1) None)
   \<and> select_group demo_db (PStr ''g'')
       = Inr (Some [(''name'', PStr ''g''), (''date'', PStr ''2019'')])
   \<and> select_database demo_db (PStr ''g'') (PStr ''p1'') (PStr ''d1'')
       = Inr (Some [(''group_name'', PStr ''g''), (''project'', PStr ''p1''),
                    (''name'', PStr ''d1''), (''date'', PStr ''2019'')])"
  by (simp add: select_project_def select_projects_def select_group_def select_groups_def
      select_database_def select_databases_def storage_select_def select_sql_def demo_db_def
      schema_defs engine_defs Project_def Group_def Database_def construct_def
      str_int_def str_nat.simps)


section \<open>The rename cascade\<close>

declare assign.simps [simp del]

lemma assign_Nil [simp]: "assign c v [] = []"
  by (simp add: assign.simps)

lemma assign_Cons [simp]:
  "assign c v ((k, w) # r) = (if k = c then (k, v) else (k, w)) # assign c v r"
  by (simp add: assign.simps)

lemma keys_assign [simp]: "keys (assign c v r) = keys r"
proof (induction r)
  case Nil
  show ?case by simp
next
  case (Cons kw r)
  obtain k w where "kw = (k, w)" by (cases kw)
  with Cons show ?case by (simp add: keys_def)
qed

lemma cell_assign:
  "cell (assign c v r) k = (if k = c \<and> c \<in> set (keys r) then v else cell r k)"
proof (induction r)
  case Nil
  show ?case by (simp add: cell_def keys_def)
next
  case (Cons kw r)
  obtain k' w where kw: "kw = (k', w)" by (cases kw)
  have "c \<in> fst ` set r \<longleftrightarrow> map_of r c \<noteq> None"
    by (simp add: map_of_eq_None_iff)
  with Cons show ?case by (auto simp: kw cell_def keys_def)
qed

lemma row_ok_keys: "row_ok cols r \<Longrightarrow> set (keys r) = fst ` set cols"
  by (simp add: row_ok_def)

lemma map_of_in_keys: "map_of cols c = Some a \<Longrightarrow> c \<in> fst ` set cols"
  by (metis domI dom_map_of_conv_image_fst)

lemma row_ok_assign:
  assumes "row_ok cols r" and "map_of cols c = Some TEXT" and "distinct (map fst cols)"
  shows "row_ok cols (assign c (PStr v) r)"
proof -
  have k: "c \<in> set (keys r)"
    using assms(1,2) by (simp add: row_ok_keys map_of_in_keys)
  have "fits a (cell (assign c (PStr v) r) c')" if "(c', a) \<in> set cols" for c' a
  proof (cases "c' = c")
    case True
    with that assms(2,3) have "a = TEXT" by simp
    then show ?thesis using True k by (simp add: cell_assign)
  next
    case False
    from assms(1) that have "fits a (cell r c')"
      by (auto simp: row_ok_def list_all_iff)
    then show ?thesis using False by (simp add: cell_assign)
  qed
  then show ?thesis
    using assms(1) by (auto simp: row_ok_def list_all_iff)
qed

lemma key_of_assign:
  assumes "c \<in> set (keys r)"
  shows "key_of t (assign c v r) = map (\<lambda>k. if k = c then v else cell r k) (primary_key t)"
  using assms by (simp add: key_of_def cell_assign)

lemma cell_rename_row:
  assumes "c \<in> set (keys r)" and "c \<noteq> ''group_name''"
  shows "cell (rename_row c g old new r) ''group_name'' = cell r ''group_name''"
    and "cell (rename_row c g old new r) c =
           (if cell r ''group_name'' = PStr g \<and> cell r c = PStr old then PStr new else cell r c)"
    and "k \<noteq> c \<Longrightarrow> cell (rename_row c g old new r) k = cell r k"
  using assms by (simp_all add: rename_row_def cell_assign)

lemma matches_where:
  assumes "map_of cols ''group_name'' = Some TEXT" and "map_of cols c = Some TEXT"
  shows "matches cols [(''group_name'', Eq, PStr g), (c, Eq, PStr v)] r
         \<longleftrightarrow> cell r ''group_name'' = PStr g \<and> cell r c = PStr v"
  using assms by (simp add: matches_def holds_def sql_test_Eq_PStr)

lemma known_where:
  assumes "map_of cols ''group_name'' = Some TEXT" and "map_of cols c = Some TEXT"
  shows "known cols [''group_name'', c]"
  using assms by (simp add: known_def map_of_in_keys)


lemma key_of_eqD:
  assumes "key_of t a = key_of t b" and "k \<in> set (primary_key t)"
  shows "cell a k = cell b k"
  using assms by (simp add: key_of_def)

lemma key_of_eqI:
  assumes "\<And>k. k \<in> set (primary_key t) \<Longrightarrow> cell a k = cell b k"
  shows "key_of t a = key_of t b"
  using assms by (simp add: key_of_def)

lemma distinct_rename:
  assumes dist: "distinct (map (key_of t) rs)"
    and keys: "\<And>r. r \<in> set rs \<Longrightarrow> c \<in> set (keys r)"
    and pk: "''group_name'' \<in> set (primary_key t)" "c \<in> set (primary_key t)"
    and ne: "c \<noteq> ''group_name''"
    and fresh: "\<And>r. r \<in> set rs \<Longrightarrow> \<not> (cell r ''group_name'' = PStr g \<and> cell r c = PStr new)"
  shows "distinct (map (key_of t) (map (rename_row c g old new) rs))"
proof -
  let ?f = "rename_row c g old new"
  from dist have d: "distinct rs" and inj: "inj_on (key_of t) (set rs)"
    by (simp_all add: distinct_map)
  have "inj_on (\<lambda>r. key_of t (?f r)) (set rs)"
  proof (rule inj_onI)
    fix a b assume a: "a \<in> set rs" and b: "b \<in> set rs"
      and eq: "key_of t (?f a) = key_of t (?f b)"
    have ka: "c \<in> set (keys a)" and kb: "c \<in> set (keys b)" using a b keys by auto
    have g_eq: "cell a ''group_name'' = cell b ''group_name''"
      using key_of_eqD [OF eq pk(1)] by (simp add: cell_rename_row(1) ka kb ne)
    have c_eq: "cell (?f a) c = cell (?f b) c" using eq pk(2) by (rule key_of_eqD)
    have other: "cell a k = cell b k" if "k \<in> set (primary_key t)" and "k \<noteq> c" for k
      using key_of_eqD [OF eq that(1)] that(2) by (simp add: cell_rename_row(3) ka kb ne)
    have "cell a c = cell b c"
    proof (cases "cell a ''group_name'' = PStr g \<and> cell a c = PStr old")
      case Pa: True
      show ?thesis
      proof (cases "cell b ''group_name'' = PStr g \<and> cell b c = PStr old")
        case True
        with Pa show ?thesis by simp
      next
        case False
        with Pa c_eq have "cell b c = PStr new"
          by (auto simp: cell_rename_row(2) ka kb ne split: if_splits)
        moreover have "cell b ''group_name'' = PStr g" using Pa g_eq by simp
        ultimately show ?thesis using fresh [OF b] by simp
      qed
    next
      case Pa: False
      show ?thesis
      proof (cases "cell b ''group_name'' = PStr g \<and> cell b c = PStr old")
        case True
        with Pa c_eq have "cell a c = PStr new"
          by (auto simp: cell_rename_row(2) ka kb ne split: if_splits)
        moreover have "cell a ''group_name'' = PStr g" using True g_eq by simp
        ultimately show ?thesis using fresh [OF a] by simp
      next
        case False
        with Pa c_eq show ?thesis
          by (auto simp: cell_rename_row(2) ka kb ne split: if_splits)
      qed
    qed
    with other have "key_of t a = key_of t b" by (intro key_of_eqI) metis
    with inj a b show "a = b" by (simp add: inj_on_def)
  qed
  with d have "distinct (map (\<lambda>r. key_of t (?f r)) rs)" by (simp add: distinct_map)
  then show ?thesis by (simp add: comp_def)
qed

lemma rows_where_Nil:
  assumes "rows_where s tbl g c v = []" and "s tbl = Some t" and "r \<in> set (rows t)"
  shows "\<not> (cell r ''group_name'' = PStr g \<and> cell r c = PStr v)"
  using assms by (auto simp: rows_where_def rows_of_def filter_empty_conv)

lemma table_ok_keys:
  assumes "table_ok cols pk t" and "r \<in> set (rows t)" and "map_of cols c = Some a"
  shows "c \<in> set (keys r)"
  using assms by (auto simp: table_ok_def list_all_iff row_ok_keys map_of_in_keys)

lemma storage_update_rename:
  assumes t: "s tbl = Some t" and ok: "table_ok cols pk t" and dc: "distinct (map fst cols)"
    and cg: "map_of cols ''group_name'' = Some TEXT" and cc: "map_of cols c = Some TEXT"
    and ne: "c \<noteq> ''group_name''" and pk: "''group_name'' \<in> set pk" "c \<in> set pk"
    and g: "g \<noteq> []" and old: "old \<noteq> []"
    and fresh: "rows_where s tbl g c new = []"
  shows "storage_update s tbl c (PStr new) [(''group_name'', PStr g), (c, PStr old)] None
           = (Inr [], s(tbl \<mapsto> t\<lparr>rows := map (rename_row c g old new) (rows t)\<rparr>))"
    and "table_ok cols pk (t\<lparr>rows := map (rename_row c g old new) (rows t)\<rparr>)"
proof -
  let ?rs = "map (rename_row c g old new) (rows t)"
  from ok have ct: "columns t = cols" and pt: "primary_key t = pk"
    and rok: "list_all (row_ok cols) (rows t)" and dist: "distinct (map (key_of t) (rows t))"
    by (simp_all add: table_ok_def)
  have keys: "c \<in> set (keys r)" if "r \<in> set (rows t)" for r
    using ok that cc by (rule table_ok_keys)
  have d: "distinct (map (key_of t) ?rs)"
  proof (rule distinct_rename [OF dist])
    show "\<And>r. r \<in> set (rows t) \<Longrightarrow> c \<in> set (keys r)" by (rule keys)
    show "''group_name'' \<in> set (primary_key t)" "c \<in> set (primary_key t)"
      using pk pt by simp_all
    show "c \<noteq> ''group_name''" by (rule ne)
    show "\<And>r. r \<in> set (rows t) \<Longrightarrow> \<not> (cell r ''group_name'' = PStr g \<and> cell r c = PStr new)"
      using fresh t by (rule rows_where_Nil)
  qed
  have touched: "touch None
      (matches cols [(''group_name'', Eq, PStr g), (c, Eq, PStr old)]) (assign c (PStr new)) (rows t)
      = ?rs"
    by (simp add: touch_None matches_where [OF cg cc] rename_row_def)
  have sql: "update_sql tbl c (PStr new) [(''group_name'', PStr g), (c, PStr old)] None
      = Update tbl c (PStr new) [(''group_name'', Eq, PStr g), (c, Eq, PStr old)] None"
    using g old by (simp add: update_sql_def)
  have ru: "run_update t c (PStr new) [(''group_name'', Eq, PStr g), (c, Eq, PStr old)] None
      = Inr (t\<lparr>rows := ?rs\<rparr>)"
  proof (cases "?rs = rows t")
    case True
    then have "t\<lparr>rows := ?rs\<rparr> = t" by simp
    then show ?thesis
      using True by (simp add: run_update_def ct cc known_where [OF cg cc] touched Let_def)
  next
    case False
    then show ?thesis
      using d by (simp add: run_update_def ct cc known_where [OF cg cc] touched Let_def)
  qed
  show "storage_update s tbl c (PStr new) [(''group_name'', PStr g), (c, PStr old)] None
           = (Inr [], s(tbl \<mapsto> t\<lparr>rows := ?rs\<rparr>))"
    using t ru by (simp add: storage_update_def sql)
  have "list_all (row_ok cols) ?rs"
    using rok by (auto simp: list_all_iff rename_row_def intro: row_ok_assign [OF _ cc dc])
  then show "table_ok cols pk (t\<lparr>rows := ?rs\<rparr>)"
    using ct pt d by (simp add: table_ok_def)
qed


lemma has_table_upd:
  assumes "has_table s name cols pk" and "s tbl = Some t"
    and "table_ok (columns t) (primary_key t) t'"
  shows "has_table (s(tbl \<mapsto> t')) name cols pk"
proof (cases "name = tbl")
  case True
  with assms(1,2) have "table_ok cols pk t" by (simp add: has_table_def)
  then have "columns t = cols" and "primary_key t = pk" by (simp_all add: table_ok_def)
  with assms(3) show ?thesis using True by (simp add: has_table_def)
next
  case False
  with assms(1) show ?thesis by (simp add: has_table_def)
qed

lemma wf_db_upd:
  assumes "wf_db s" and "s tbl = Some t" and "table_ok (columns t) (primary_key t) t'"
  shows "wf_db (s(tbl \<mapsto> t'))"
  using assms by (simp add: wf_db_def has_table_upd)

lemma rows_of_rename_in:
  "rows_of (rename_in s tbl c g old new) tbl' =
     (if tbl' = tbl then map (rename_row c g old new) (rows_of s tbl) else rows_of s tbl')"
  by (simp add: rows_of_def rename_in_def split: option.splits)

lemma rows_where_other:
  assumes "tbl' \<noteq> tbl"
  shows "rows_where (rename_in s tbl c g old new) tbl' g' c' v = rows_where s tbl' g' c' v"
  using assms by (simp add: rows_where_def rows_of_rename_in)

lemma stored_events_other:
  assumes "tbl \<noteq> ''events''"
  shows "stored_events (rename_in s tbl c g old new) g' p d = stored_events s g' p d"
  using assms by (simp add: stored_events_def rows_of_rename_in)

lemma update_rename_wf:
  assumes wf: "wf_db s" and ht: "has_table s tbl cols pk" and dc: "distinct (map fst cols)"
    and cg: "map_of cols ''group_name'' = Some TEXT" and cc: "map_of cols c = Some TEXT"
    and ne: "c \<noteq> ''group_name''" and pk: "''group_name'' \<in> set pk" "c \<in> set pk"
    and g: "g \<noteq> []" and old: "old \<noteq> []"
    and fresh: "rows_where s tbl g c new = []"
  shows "storage_update s tbl c (PStr new) [(''group_name'', PStr g), (c, PStr old)] None
           = (Inr [], rename_in s tbl c g old new)"
    and "wf_db (rename_in s tbl c g old new)"
proof -
  from ht obtain t where t: "s tbl = Some t" and ok: "table_ok cols pk t"
    by (auto simp: has_table_def split: option.splits)
  note upd = storage_update_rename [OF t ok dc cg cc ne pk g old fresh]
  have r: "rename_in s tbl c g old new
      = s(tbl \<mapsto> t\<lparr>rows := map (rename_row c g old new) (rows t)\<rparr>)"
    using t by (simp add: rename_in_def)
  show "storage_update s tbl c (PStr new) [(''group_name'', PStr g), (c, PStr old)] None
           = (Inr [], rename_in s tbl c g old new)"
    using upd(1) r by simp
  from ok have "columns t = cols" and "primary_key t = pk" by (simp_all add: table_ok_def)
  with upd(2) have "table_ok (columns t) (primary_key t)
      (t\<lparr>rows := map (rename_row c g old new) (rows t)\<rparr>)"
    by simp
  with wf t show "wf_db (rename_in s tbl c g old new)"
    unfolding r by (rule wf_db_upd)
qed

lemma rows_where_renamed:
  assumes ht: "has_table s tbl cols pk" and cc: "map_of cols c = Some a"
    and ne: "c \<noteq> ''group_name''" and on: "old \<noteq> new"
    and fresh: "rows_where s tbl g c new = []"
  shows "rows_where (rename_in s tbl c g old new) tbl g c new
           = map (assign c (PStr new)) (rows_where s tbl g c old)"
    and "rows_where (rename_in s tbl c g old new) tbl g c old = []"
proof -
  from ht obtain t where t: "s tbl = Some t" and ok: "table_ok cols pk t"
    by (auto simp: has_table_def split: option.splits)
  let ?f = "rename_row c g old new"
  let ?Q = "\<lambda>v r. cell r ''group_name'' = PStr g \<and> cell r c = PStr v"
  have keys: "c \<in> set (keys r)" if "r \<in> set (rows t)" for r
    using ok that cc by (rule table_ok_keys)
  have nofresh: "\<not> ?Q new r" if "r \<in> set (rows t)" for r
    using fresh t that by (rule rows_where_Nil)
  have q_new: "?Q new (?f r) = ?Q old r" if "r \<in> set (rows t)" for r
    using keys [OF that] nofresh [OF that] ne
    by (auto simp: cell_rename_row(1,2))
  have q_old: "\<not> ?Q old (?f r)" if "r \<in> set (rows t)" for r
    using keys [OF that] ne on
    by (auto simp: cell_rename_row(1,2))
  have "filter (?Q new) (map ?f (rows t)) = map ?f (filter (\<lambda>r. ?Q new (?f r)) (rows t))"
    by (simp add: filter_map comp_def)
  also have "filter (\<lambda>r. ?Q new (?f r)) (rows t) = filter (?Q old) (rows t)"
    by (rule filter_cong [OF refl]) (rule q_new)
  also have "map ?f (filter (?Q old) (rows t)) = map (assign c (PStr new)) (filter (?Q old) (rows t))"
    by (rule map_cong [OF refl]) (simp add: rename_row_def)
  finally show "rows_where (rename_in s tbl c g old new) tbl g c new
           = map (assign c (PStr new)) (rows_where s tbl g c old)"
    using t by (simp add: rows_where_def rows_of_rename_in) (simp add: rows_of_def)
  have "filter (?Q old) (map ?f (rows t)) = []"
    using q_old by (simp add: filter_empty_conv)
  then show "rows_where (rename_in s tbl c g old new) tbl g c old = []"
    using t by (simp add: rows_where_def rows_of_rename_in) (simp add: rows_of_def)
qed


lemma storage_select_where:
  assumes ht: "has_table s tbl cols pk"
    and cg: "map_of cols ''group_name'' = Some TEXT" and cc: "map_of cols c = Some TEXT"
    and g: "g \<noteq> []" and v: "v \<noteq> []"
    and extra: "filter (\<lambda>(key, val). truthy val) extra = []"
  shows "fst (storage_select s tbl ((''group_name'', PStr g) # (c, PStr v) # extra) None)
           = Inr (rows_where s tbl g c v)"
proof -
  from ht obtain t where t: "s tbl = Some t" and ok: "table_ok cols pk t"
    by (auto simp: has_table_def split: option.splits)
  from ok have ct: "columns t = cols" by (simp add: table_ok_def)
  have sql: "select_sql tbl ((''group_name'', PStr g) # (c, PStr v) # extra) None
      = Select None tbl [(''group_name'', Eq, PStr g), (c, Eq, PStr v)] None None"
    using g v extra by (simp add: select_sql_def)
  have f: "filter (matches cols [(''group_name'', Eq, PStr g), (c, Eq, PStr v)]) (rows t)
      = filter (\<lambda>r. cell r ''group_name'' = PStr g \<and> cell r c = PStr v) (rows t)"
    by (rule filter_cong [OF refl]) (rule matches_where [OF cg cc])
  have "run_select t None [(''group_name'', Eq, PStr g), (c, Eq, PStr v)] None None
      = Inr (filter (\<lambda>r. cell r ''group_name'' = PStr g \<and> cell r c = PStr v) (rows t))"
    using known_where [OF cg cc] by (simp add: run_select_def ct f)
  then show ?thesis
    using t by (simp add: storage_select_def sql rows_where_def rows_of_def)
qed

lemma Project_row_ok: "row_ok projects_columns r \<Longrightarrow> Project r = Inr r"
  by (simp add: Project_def construct_def row_ok_def projects_columns_def)

lemma Database_row_ok: "row_ok databases_columns r \<Longrightarrow> Database r = Inr r"
  by (auto simp: Database_def construct_def row_ok_def databases_columns_def)

lemma rows_where_row_ok:
  assumes "has_table s tbl cols pk" and "r \<in> set (rows_where s tbl g c v)"
  shows "row_ok cols r"
  using assms
  by (auto simp: has_table_def table_ok_def rows_where_def rows_of_def list_all_iff
      split: option.splits)

lemma select_projects_wf:
  assumes "wf_db s" and "g \<noteq> []" and "v \<noteq> []"
  shows "select_projects s (PStr g) (PStr v) None = Inr (rows_where s ''projects'' g ''name'' v)"
proof -
  from assms(1) have ht: "has_table s ''projects'' projects_columns projects_key"
    by (simp add: wf_db_def)
  have sel: "fst (storage_select s ''projects'' [(''group_name'', PStr g), (''name'', PStr v)] None)
      = Inr (rows_where s ''projects'' g ''name'' v)"
    using ht _ _ assms(2,3)
    by (rule storage_select_where) (simp_all add: projects_columns_def)
  have "build_all Project (rows_where s ''projects'' g ''name'' v)
      = Inr (map (\<lambda>r. r) (rows_where s ''projects'' g ''name'' v))"
    by (rule build_all_map) (rule Project_row_ok, rule rows_where_row_ok [OF ht])
  then show ?thesis by (simp add: select_projects_def sel)
qed

lemma select_databases_wf:
  assumes "wf_db s" and "g \<noteq> []" and "v \<noteq> []"
  shows "select_databases s (PStr g) (PStr v) PNone None
           = Inr (rows_where s ''databases'' g ''project'' v)"
proof -
  from assms(1) have ht: "has_table s ''databases'' databases_columns databases_key"
    by (simp add: wf_db_def)
  have sel: "fst (storage_select s ''databases''
        [(''group_name'', PStr g), (''project'', PStr v), (''name'', PNone)] None)
      = Inr (rows_where s ''databases'' g ''project'' v)"
    using ht _ _ assms(2,3)
    by (rule storage_select_where) (simp_all add: databases_columns_def)
  have "build_all Database (rows_where s ''databases'' g ''project'' v)
      = Inr (map (\<lambda>r. r) (rows_where s ''databases'' g ''project'' v))"
    by (rule build_all_map) (rule Database_row_ok, rule rows_where_row_ok [OF ht])
  then show ?thesis by (simp add: select_databases_def sel)
qed

lemma stored_events_renamed:
  assumes wf: "wf_db s" and on: "old \<noteq> new"
    and fresh: "rows_where s ''events'' g ''project'' new = []"
  shows "stored_events (rename_in s ''events'' ''project'' g old new) g new d
           = stored_events s g old d"
    and "stored_events (rename_in s ''events'' ''project'' g old new) g old d = []"
proof -
  from wf obtain t where t: "s ''events'' = Some t"
    and ok: "list_all (row_ok events_columns) (rows t)"
    by (rule wf_events)
  let ?f = "rename_row ''project'' g old new"
  have keys: "''project'' \<in> set (keys r)" if "r \<in> set (rows t)" for r
  proof -
    from ok that have "row_ok events_columns r" by (simp add: list_all_iff)
    then show ?thesis by (simp add: row_ok_def events_columns_def)
  qed
  have nofresh: "\<not> (cell r ''group_name'' = PStr g \<and> cell r ''project'' = PStr new)"
    if "r \<in> set (rows t)" for r
    using fresh t that by (rule rows_where_Nil)
  have s_new: "in_scope g new d (?f r) = in_scope g old d r" if "r \<in> set (rows t)" for r
    using keys [OF that] nofresh [OF that]
    by (auto simp: in_scope_def cell_rename_row)
  have s_old: "\<not> in_scope g old d (?f r)" if "r \<in> set (rows t)" for r
    using keys [OF that] on
    by (auto simp: in_scope_def cell_rename_row)
  have ev: "row_event (?f r) = row_event r" if "r \<in> set (rows t)" for r
    using keys [OF that] by (simp add: row_event_def cell_rename_row)
  have "map row_event (filter (in_scope g new d) (map ?f (rows t)))
      = map row_event (map ?f (filter (\<lambda>r. in_scope g new d (?f r)) (rows t)))"
    by (simp add: filter_map comp_def)
  also have "filter (\<lambda>r. in_scope g new d (?f r)) (rows t) = filter (in_scope g old d) (rows t)"
    by (rule filter_cong [OF refl]) (rule s_new)
  also have "map row_event (map ?f (filter (in_scope g old d) (rows t)))
      = map row_event (filter (in_scope g old d) (rows t))"
    unfolding map_map by (rule map_cong [OF refl]) (simp add: ev)
  finally show "stored_events (rename_in s ''events'' ''project'' g old new) g new d
           = stored_events s g old d"
    using t by (simp add: stored_events_def rows_of_rename_in) (simp add: rows_of_def)
  have "filter (in_scope g old d) (map ?f (rows t)) = []"
    using s_old by (simp add: filter_empty_conv)
  then show "stored_events (rename_in s ''events'' ''project'' g old new) g old d = []"
    using t by (simp add: stored_events_def rows_of_rename_in) (simp add: rows_of_def)
qed

lemma select_events_all:
  assumes "wf_db s"
  shows "\<exists>es. select_events s (PStr g) (PStr p) (PStr d) (PInt k) = Inr es
           \<and> set es = {e \<in> set (stored_events s g p d). k < tick_of e}
           \<and> length es = length (filter (\<lambda>e. k < tick_of e) (stored_events s g p d))"
proof -
  let ?P = "\<lambda>r. in_scope g p d r \<and> k < int_of (cell r ''tick'')"
  let ?rs = "sort_key (\<lambda>r. sql_key (cell r ''tick'')) (filter ?P (rows_of s ''events''))"
  have sel: "select_events s (PStr g) (PStr p) (PStr d) (PInt k) = Inr (map row_event ?rs)"
    using assms by (rule select_events_wf)
  have "set (map row_event ?rs) = {e \<in> set (stored_events s g p d). k < tick_of e}"
    by (auto simp: stored_events_def)
  moreover have "length (map row_event ?rs)
      = length (filter (\<lambda>e. k < tick_of e) (stored_events s g p d))"
    by (simp add: stored_events_def filter_map comp_def conj_commute)
  ultimately show ?thesis using sel by blast
qed


lemma returns_none_Inr [simp]: "returns_none (Inr x, s) = (Inr (), s)"
  by simp

lemma rename_cascade:
  assumes wf: "wf_db s" and g: "g \<noteq> []" and old: "old \<noteq> []" and new: "new \<noteq> []"
    and on: "old \<noteq> new"
    and fresh_p: "rows_where s ''projects'' g ''name'' new = []"
    and fresh_d: "rows_where s ''databases'' g ''project'' new = []"
    and fresh_e: "rows_where s ''events'' g ''project'' new = []"
  defines "s1 \<equiv> rename_in s ''projects'' ''name'' g old new"
  defines "s2 \<equiv> rename_in s1 ''databases'' ''project'' g old new"
  defines "s3 \<equiv> rename_in s2 ''events'' ''project'' g old new"
  shows "update_project_name s (PStr g) (PStr old) (PStr new) None = (Inr (), s1)"
    and "update_database_project s1 (PStr g) (PStr old) (PStr new) None = (Inr (), s2)"
    and "update_events_project s2 (PStr g) (PStr old) (PStr new) None = (Inr (), s3)"
    and "wf_db s3"
    and "select_projects s3 (PStr g) (PStr new) None
           = Inr (map (assign ''name'' (PStr new)) (rows_where s ''projects'' g ''name'' old))"
    and "select_projects s3 (PStr g) (PStr old) None = Inr []"
    and "select_databases s3 (PStr g) (PStr new) PNone None
           = Inr (map (assign ''project'' (PStr new)) (rows_where s ''databases'' g ''project'' old))"
    and "select_databases s3 (PStr g) (PStr old) PNone None = Inr []"
    and "stored_events s3 g new d = stored_events s g old d"
    and "stored_events s3 g old d = []"
proof -
  have hp: "has_table s ''projects'' projects_columns projects_key"
    using wf by (simp add: wf_db_def)
  have u1: "storage_update s ''projects'' ''name'' (PStr new)
        [(''group_name'', PStr g), (''name'', PStr old)] None = (Inr [], s1)"
    and wf1: "wf_db s1"
    unfolding s1_def
    using wf hp _ _ _ _ _ _ g old fresh_p
    by (rule update_rename_wf; simp add: projects_columns_def projects_key_def)+
  have hd: "has_table s1 ''databases'' databases_columns databases_key"
    using wf1 by (simp add: wf_db_def)
  have fd1: "rows_where s1 ''databases'' g ''project'' new = []"
    unfolding s1_def using fresh_d by (simp add: rows_where_other)
  have u2: "storage_update s1 ''databases'' ''project'' (PStr new)
        [(''group_name'', PStr g), (''project'', PStr old)] None = (Inr [], s2)"
    and wf2: "wf_db s2"
    unfolding s2_def
    using wf1 hd _ _ _ _ _ _ g old fd1
    by (rule update_rename_wf; simp add: databases_columns_def databases_key_def)+
  have he: "has_table s2 ''events'' events_columns events_key"
    using wf2 by (simp add: wf_db_def)
  have fe2: "rows_where s2 ''events'' g ''project'' new = []"
    unfolding s2_def s1_def using fresh_e by (simp add: rows_where_other)
  have u3: "storage_update s2 ''events'' ''project'' (PStr new)
        [(''group_name'', PStr g), (''project'', PStr old)] None = (Inr [], s3)"
    and wf3: "wf_db s3"
    unfolding s3_def
    using wf2 he _ _ _ _ _ _ g old fe2
    by (rule update_rename_wf; simp add: events_columns_def events_key_def)+
  show "update_project_name s (PStr g) (PStr old) (PStr new) None = (Inr (), s1)"
    by (simp add: update_project_name_def u1)
  show "update_database_project s1 (PStr g) (PStr old) (PStr new) None = (Inr (), s2)"
    by (simp add: update_database_project_def u2)
  show "update_events_project s2 (PStr g) (PStr old) (PStr new) None = (Inr (), s3)"
    by (simp add: update_events_project_def u3)
  show "wf_db s3" by (rule wf3)
  have p3: "rows_where s3 ''projects'' g ''name'' v = rows_where s1 ''projects'' g ''name'' v" for v
    unfolding s3_def s2_def by (simp add: rows_where_other)
  note rp = rows_where_renamed [where a = TEXT, OF hp _ _ on fresh_p, folded s1_def]
  show "select_projects s3 (PStr g) (PStr new) None
           = Inr (map (assign ''name'' (PStr new)) (rows_where s ''projects'' g ''name'' old))"
    using rp(1) by (simp add: select_projects_wf [OF wf3 g new] p3 projects_columns_def)
  show "select_projects s3 (PStr g) (PStr old) None = Inr []"
    using rp(2) by (simp add: select_projects_wf [OF wf3 g old] p3 projects_columns_def)
  have hd0: "has_table s ''databases'' databases_columns databases_key"
    using wf by (simp add: wf_db_def)
  have d3: "rows_where s3 ''databases'' g ''project'' v = rows_where s2 ''databases'' g ''project'' v"
    for v
    unfolding s3_def by (simp add: rows_where_other)
  have d1: "rows_where s1 ''databases'' g ''project'' v = rows_where s ''databases'' g ''project'' v"
    for v
    unfolding s1_def by (simp add: rows_where_other)
  note rd = rows_where_renamed [where a = TEXT, OF hd _ _ on fd1, folded s2_def]
  show "select_databases s3 (PStr g) (PStr new) PNone None
           = Inr (map (assign ''project'' (PStr new)) (rows_where s ''databases'' g ''project'' old))"
    using rd(1) by (simp add: select_databases_wf [OF wf3 g new] d3 d1 databases_columns_def)
  show "select_databases s3 (PStr g) (PStr old) PNone None = Inr []"
    using rd(2) by (simp add: select_databases_wf [OF wf3 g old] d3 databases_columns_def)
  have e2: "stored_events s2 g' p d = stored_events s g' p d" for g' p
    unfolding s2_def s1_def by (simp add: stored_events_other)
  note re = stored_events_renamed [OF wf2 on fe2, of d, folded s3_def]
  show "stored_events s3 g new d = stored_events s g old d"
    using re(1) by (simp add: e2)
  show "stored_events s3 g old d = []"
    by (rule re(2))
qed


text \<open>
  C7, as stated, fails: \<^verbatim>\<open>select_events\<close> with \<^verbatim>\<open>sinceTick = 0\<close> leaves out an event
  whose tick is 0, so after the cascade on a store whose two events have the ticks 0 and 1
  it returns one event; and on a store where the group already has a project \<^verbatim>\<open>p2\<close>
  the first step of the cascade raises the duplicate-key error.
\<close>

theorem rename_cascade_counterexample:
  "stored_events tick0_db ''g'' ''p1'' ''d1'' = [new_event 0 ''a'', new_event 1 ''b'']
   \<and> select_events
        (snd (update_events_project
          (snd (update_database_project
            (snd (update_project_name tick0_db (PStr ''g'') (PStr ''p1'') (PStr ''p2'') None))
            (PStr ''g'') (PStr ''p1'') (PStr ''p2'') None))
          (PStr ''g'') (PStr ''p1'') (PStr ''p2'') None))
        (PStr ''g'') (PStr ''p2'') (PStr ''d1'') (PInt 0)
       = Inr [new_event 1 ''b'']
   \<and> rows_where taken_db ''projects'' ''g'' ''name'' ''p1''
       = [[(''group_name'', PStr ''g''), (''name'', PStr ''p1''), (''hash'', PStr ''h''),
           (''file'', PStr ''f''), (''type'', PStr ''t''), (''date'', PStr ''2019'')]]
   \<and> update_project_name taken_db (PStr ''g'') (PStr ''p1'') (PStr ''p2'') None
       = (Inl (IntegrityError Unique), taken_db)"
  by (simp add: tick0_db_def taken_db_def demo_db_def update_project_name_def
      update_database_project_def update_events_project_def storage_update_def update_sql_def
      select_events_def schema_defs engine_defs load_event_def stored_events_def rows_of_def
      rows_where_def in_scope_def row_event_def text_of_def new_event_def
      less_eq_prod_def less_prod_def)

text \<open>
  C7, amended. Let group \<^verbatim>\<open>g\<close> own project \<^verbatim>\<open>p1\<close>, \<^verbatim>\<open>p1\<close> own one database
  \<^verbatim>\<open>d1\<close>, and \<^verbatim>\<open>d1\<close> have two events, both with a tick of at least 1, and let no
  project, database or event of the group be under the name \<^verbatim>\<open>p2\<close> yet. Then the three
  updates of the cascade succeed, and afterwards selecting the projects \<^verbatim>\<open>(g, p2)\<close>
  returns one row, selecting the databases \<^verbatim>\<open>(g, p2)\<close> returns \<^verbatim>\<open>d1\<close>, selecting the
  events \<^verbatim>\<open>(g, p2, d1)\<close> since tick 0 returns both events, and the same three queries
  with \<^verbatim>\<open>p1\<close> return nothing.
\<close>

theorem rename_cascade_moves_everything:
  assumes "wf_db s"
    and "rows_where s ''projects'' ''g'' ''name'' ''p1'' = [P]"
    and "rows_where s ''databases'' ''g'' ''project'' ''p1'' = [D]"
    and "cell D ''name'' = PStr ''d1''"
    and "stored_events s ''g'' ''p1'' ''d1'' = [e1, e2]"
    and "0 < tick_of e1" and "0 < tick_of e2"
    and "rows_where s ''projects'' ''g'' ''name'' ''p2'' = []"
    and "rows_where s ''databases'' ''g'' ''project'' ''p2'' = []"
    and "rows_where s ''events'' ''g'' ''project'' ''p2'' = []"
  shows "\<exists>s1 s2 s3 es.
           update_project_name s (PStr ''g'') (PStr ''p1'') (PStr ''p2'') None = (Inr (), s1)
         \<and> update_database_project s1 (PStr ''g'') (PStr ''p1'') (PStr ''p2'') None = (Inr (), s2)
         \<and> update_events_project s2 (PStr ''g'') (PStr ''p1'') (PStr ''p2'') None = (Inr (), s3)
         \<and> select_projects s3 (PStr ''g'') (PStr ''p2'') None
             = Inr [assign ''name'' (PStr ''p2'') P]
         \<and> select_databases s3 (PStr ''g'') (PStr ''p2'') PNone None
             = Inr [assign ''project'' (PStr ''p2'') D]
         \<and> cell (assign ''project'' (PStr ''p2'') D) ''name'' = PStr ''d1''
         \<and> select_events s3 (PStr ''g'') (PStr ''p2'') (PStr ''d1'') (PInt 0) = Inr es
         \<and> set es = {e1, e2} \<and> length es = 2
         \<and> select_projects s3 (PStr ''g'') (PStr ''p1'') None = Inr []
         \<and> select_databases s3 (PStr ''g'') (PStr ''p1'') PNone None = Inr []
         \<and> select_events s3 (PStr ''g'') (PStr ''p1'') (PStr ''d1'') (PInt 0) = Inr []"
proof -
  let ?s1 = "rename_in s ''projects'' ''name'' ''g'' ''p1'' ''p2''"
  let ?s2 = "rename_in ?s1 ''databases'' ''project'' ''g'' ''p1'' ''p2''"
  let ?s3 = "rename_in ?s2 ''events'' ''project'' ''g'' ''p1'' ''p2''"
  have ne: "''g'' \<noteq> []" "''p1'' \<noteq> []" "''p2'' \<noteq> []" "''p1'' \<noteq> ''p2''" by simp_all
  note rc = rename_cascade [OF assms(1) ne assms(8,9,10)]
  have new: "stored_events ?s3 ''g'' ''p2'' ''d1'' = [e1, e2]"
    using rc(9) [of "''d1''"] assms(5) by simp
  have old: "stored_events ?s3 ''g'' ''p1'' ''d1'' = []"
    by (rule rc(10))
  from select_events_all [OF rc(4), of "''g''" "''p2''" "''d1''" 0]
  obtain es where es: "select_events ?s3 (PStr ''g'') (PStr ''p2'') (PStr ''d1'') (PInt 0) = Inr es"
    and "set es = {e \<in> set [e1, e2]. 0 < tick_of e}"
    and "length es = length (filter (\<lambda>e. 0 < tick_of e) [e1, e2])"
    unfolding new by blast
  then have both: "set es = {e1, e2}" "length es = 2"
    using assms(6,7) by auto
  from select_events_all [OF rc(4), of "''g''" "''p1''" "''d1''" 0]
  have none: "select_events ?s3 (PStr ''g'') (PStr ''p1'') (PStr ''d1'') (PInt 0) = Inr []"
    unfolding old by auto
  have d1: "cell (assign ''project'' (PStr ''p2'') D) ''name'' = PStr ''d1''"
    using assms(4) by (simp add: cell_assign)
  have sp: "select_projects ?s3 (PStr ''g'') (PStr ''p2'') None = Inr [assign ''name'' (PStr ''p2'') P]"
    using rc(5) assms(2) by simp
  have sd: "select_databases ?s3 (PStr ''g'') (PStr ''p2'') PNone None
      = Inr [assign ''project'' (PStr ''p2'') D]"
    using rc(7) assms(3) by simp
  show ?thesis
    using rc(1,2,3) sp sd d1 es both rc(6) rc(8) none by blast
qed

theorem rename_cascade_moves_everything_witness:
  "wf_db pair_db
   \<and> rows_where pair_db ''projects'' ''g'' ''name'' ''p1''
       = [[(''group_name'', PStr ''g''), (''name'', PStr ''p1''), (''hash'', PStr ''h''),
           (''file'', PStr ''f''), (''type'', PStr ''t''), (''date'', PStr ''2019'')]]
   \<and> rows_where pair_db ''databases'' ''g'' ''project'' ''p1''
       = [[(''group_name'', PStr ''g''), (''project'', PStr ''p1''), (''name'', PStr ''d1''),
           (''date'', PStr ''2019'')]]
   \<and> stored_events pair_db ''g'' ''p1'' ''d1'' = [new_event 2 ''a'', new_event 1 ''b'']
   \<and> rows_where pair_db ''projects'' ''g'' ''name'' ''p2'' = []
   \<and> rows_where pair_db ''databases'' ''g'' ''project'' ''p2'' = []
   \<and> rows_where pair_db ''events'' ''g'' ''project'' ''p2'' = []
   \<and> (\<exists>s1 s2 s3 es.
           update_project_name pair_db (PStr ''g'') (PStr ''p1'') (PStr ''p2'') None = (Inr (), s1)
         \<and> update_database_project s1 (PStr ''g'') (PStr ''p1'') (PStr ''p2'') None = (Inr (), s2)
         \<and> update_events_project s2 (PStr ''g'') (PStr ''p1'') (PStr ''p2'') None = (Inr (), s3)
         \<and> select_projects s3 (PStr ''g'') (PStr ''p2'') None
             = Inr [[(''group_name'', PStr ''g''), (''name'', PStr ''p2''), (''hash'', PStr ''h''),
                     (''file'', PStr ''f''), (''type'', PStr ''t''), (''date'', PStr ''2019'')]]
         \<and> select_databases s3 (PStr ''g'') (PStr ''p2'') PNone None
             = Inr [[(''group_name'', PStr ''g''), (''project'', PStr ''p2''),
                     (''name'', PStr ''d1''), (''date'', PStr ''2019'')]]
         \<and> select_events s3 (PStr ''g'') (PStr ''p2'') (PStr ''d1'') (PInt 0) = Inr es
         \<and> set es = {new_event 2 ''a'', new_event 1 ''b''} \<and> length es = 2
         \<and> select_projects s3 (PStr ''g'') (PStr ''p1'') None = Inr []
         \<and> select_databases s3 (PStr ''g'') (PStr ''p1'') PNone None = Inr []
         \<and> select_events s3 (PStr ''g'') (PStr ''p1'') (PStr ''d1'') (PInt 0) = Inr [])"
proof -
  have wf: "wf_db pair_db"
    by (simp add: wf_db_def has_table_def table_ok_def row_ok_def pair_db_def demo_db_def
        schema_defs engine_defs)
  have P: "rows_where pair_db ''projects'' ''g'' ''name'' ''p1''
       = [[(''group_name'', PStr ''g''), (''name'', PStr ''p1''), (''hash'', PStr ''h''),
           (''file'', PStr ''f''), (''type'', PStr ''t''), (''date'', PStr ''2019'')]]"
    by (simp add: rows_where_def rows_of_def pair_db_def demo_db_def cell_def)
  have D: "rows_where pair_db ''databases'' ''g'' ''project'' ''p1''
       = [[(''group_name'', PStr ''g''), (''project'', PStr ''p1''), (''name'', PStr ''d1''),
           (''date'', PStr ''2019'')]]"
    by (simp add: rows_where_def rows_of_def pair_db_def demo_db_def cell_def)
  have E: "stored_events pair_db ''g'' ''p1'' ''d1'' = [new_event 2 ''a'', new_event 1 ''b'']"
    by (simp add: stored_events_def rows_of_def pair_db_def in_scope_def cell_def row_event_def
        text_of_def new_event_def)
  have F: "rows_where pair_db ''projects'' ''g'' ''name'' ''p2'' = []"
    "rows_where pair_db ''databases'' ''g'' ''project'' ''p2'' = []"
    "rows_where pair_db ''events'' ''g'' ''project'' ''p2'' = []"
    by (simp_all add: rows_where_def rows_of_def pair_db_def demo_db_def cell_def)
  have n: "cell [(''group_name'', PStr ''g''), (''project'', PStr ''p1''), (''name'', PStr ''d1''),
           (''date'', PStr ''2019'')] ''name'' = PStr ''d1''"
    by (simp add: cell_def)
  have t: "0 < tick_of (new_event 2 ''a'')" "0 < tick_of (new_event 1 ''b'')" by simp_all
  show ?thesis
    using rename_cascade_moves_everything [OF wf P D n E t F] wf P D E F
    by (simp add: cell_def)
qed


section \<open>Insert, then select\<close>






lemma keys_persisted [simp]: "keys (persisted cols obj) = map fst cols"
  by (simp add: persisted_def keys_def comp_def case_prod_unfold)






















lemma event_tick_row_event [simp]: "event_tick (row_event r) = cell r ''tick''"
  by (simp add: row_event_def)




section \<open>Insert followed by select\<close>





end
